theory Spec2Isabelle
  imports Main "HOL-Library.Sublist"
begin

section \<open>The migration set of \<^verbatim>\<open>src/lib/set.js\<close>\<close>

text \<open>
  The module keeps an ordered list of migration units and a cursor \<open>pos\<close>, loads the
  persisted cursor from a single MongoDB document, runs the units of the computed range
  one after the other in continuation-passing style, and stores the cursor again.

  The embedding makes every effect an entry of a trace: events sent through the
  \<^verbatim>\<open>EventEmitter\<close>, invocations of a unit's \<^verbatim>\<open>up\<close>/\<^verbatim>\<open>down\<close> operation, document
  writes, \<^verbatim>\<open>console.error\<close>, \<^verbatim>\<open>process.exit\<close> and the caller's completion callback.
  JavaScript numbers that hold the cursor are \<open>int\<close>; the asynchronous calls are
  sequential here, since the source awaits each of them before it goes on.
\<close>

subsection \<open>Data\<close>

text \<open>
  An error value as the code looks at it: its \<^verbatim>\<open>code\<close> property (absent on most errors)
  and the text \<^verbatim>\<open>err.toString()\<close> gives.
\<close>

datatype error = Error (code: "string option") (toString: string)

text \<open>
  The direction of a call. \<^verbatim>\<open>Set.prototype.up\<close> and \<^verbatim>\<open>Set.prototype.down\<close> pass the
  strings \<^verbatim>\<open>'up'\<close> and \<^verbatim>\<open>'down'\<close>, the two cases of the \<^verbatim>\<open>switch\<close> in \<^verbatim>\<open>_migrate\<close>.
\<close>

datatype direction = Up | Down

text \<open>
  A migration unit: its \<^verbatim>\<open>title\<close> and, for each of its two operations, what the
  operation hands to the callback it is given: \<open>None\<close> for success, \<open>Some err\<close> for a
  failure. (The units are built by the loader, outside this module; an operation is
  taken to answer through its callback once.)
\<close>

record migration =
  title :: string
  up :: "error option"
  down :: "error option"

text \<open>The object \<^verbatim>\<open>Set(path)\<close> builds; \<^verbatim>\<open>force\<close> is set by the caller and is absent
  (falsy) on a new object.\<close>

record migration_set =
  migrations :: "migration list"
  path :: string
  pos :: int
  force :: bool

definition Set_new :: "string \<Rightarrow> migration_set" where
  "Set_new p = \<lparr>migrations = [], path = p, pos = 0, force = False\<rparr>"

text \<open>
  Modelled from the spec: the schema of the stored document is \<^verbatim>\<open>config.schema\<close>, read
  from a configuration file outside the repository's sources. The spec gives the persisted
  progress record as \<^verbatim>\<open>{ pos, migrations }\<close>, the migrations by title.
\<close>

record progress =
  rec_pos :: int
  rec_migrations :: "string list"

definition snapshot :: "migration_set \<Rightarrow> progress" where
  "snapshot s = \<lparr>rec_pos = pos s, rec_migrations = map title (migrations s)\<rparr>"

datatype event = Load | Save | Migration migration direction | Complete

datatype action =
    Emit event
  | Invoke migration direction
  | Write progress
  | Console_error string
  | Exit int
  | Callback "error option"

text \<open>
  The world a call runs in: the \<^verbatim>\<open>Set\<close> object, the one document of the collection
  (\<open>None\<close>: \<^verbatim>\<open>findOne\<close> finds nothing; \<open>Some None\<close>: a document without a
  \<^verbatim>\<open>migration\<close> field), what has been observed so far, and whether the process has
  exited.
\<close>

record world =
  self :: migration_set
  doc :: "progress option option"
  trace :: "action list"
  exited :: bool

text \<open>
  What the database does during one call: the error \<^verbatim>\<open>findOne\<close> throws when the record
  is loaded, the error it throws when the record is saved, and the error the document's
  \<^verbatim>\<open>save\<close> throws (\<open>None\<close>: the operation succeeds).
\<close>

record env =
  load_find :: "error option"
  save_find :: "error option"
  save_write :: "error option"

subsection \<open>Effects\<close>

definition emit :: "event \<Rightarrow> world \<Rightarrow> world" where
  "emit e w = w\<lparr>trace := trace w @ [Emit e]\<rparr>"

definition invoke :: "migration \<Rightarrow> direction \<Rightarrow> world \<Rightarrow> world" where
  "invoke m d w = w\<lparr>trace := trace w @ [Invoke m d]\<rparr>"

definition console_error :: "string \<Rightarrow> world \<Rightarrow> world" where
  "console_error s w = w\<lparr>trace := trace w @ [Console_error s]\<rparr>"

definition process_exit :: "int \<Rightarrow> world \<Rightarrow> world" where
  "process_exit n w = w\<lparr>trace := trace w @ [Exit n], exited := True\<rparr>"

text \<open>The caller's \<^verbatim>\<open>fn(err)\<close>; \<^verbatim>\<open>migrate\<close> replaces a missing \<^verbatim>\<open>fn\<close> by a function
  that does nothing, so the call is recorded in both cases.\<close>

definition callback :: "error option \<Rightarrow> world \<Rightarrow> world" where
  "callback err w = w\<lparr>trace := trace w @ [Callback err]\<rparr>"

subsection \<open>\<^verbatim>\<open>Set.prototype.connect\<close>, \<^verbatim>\<open>load\<close> and \<^verbatim>\<open>save\<close>\<close>

text \<open>
  \<^verbatim>\<open>connect(fn, type)\<close>: with a \<^verbatim>\<open>type\<close> it reads the record and calls
  \<^verbatim>\<open>fn(null, obj)\<close>; without, it writes the set into the document, emits \<^verbatim>\<open>save\<close> and
  calls \<^verbatim>\<open>fn(err)\<close>. An error of \<^verbatim>\<open>findOne\<close> goes to \<^verbatim>\<open>fn(err)\<close> at once in both.
  The continuation \<^verbatim>\<open>fn\<close> is a function of the world; the continuations used here report
  through callbacks and the trace and do not throw, so the \<^verbatim>\<open>catch\<close> around
  \<^verbatim>\<open>fn(null, obj)\<close> has nothing to catch.
\<close>

definition zero_record :: progress where
  "zero_record = \<lparr>rec_pos = 0, rec_migrations = []\<rparr>"

definition connect ::
  "env \<Rightarrow> (error option \<Rightarrow> progress option \<Rightarrow> world \<Rightarrow> world) \<Rightarrow> bool \<Rightarrow> world \<Rightarrow> world" where
  "connect e fn type w =
     (case (if type then load_find e else save_find e) of
        Some err \<Rightarrow> fn (Some err) None w
      | None \<Rightarrow>
          if type then
            (let obj = (case doc w of
                          Some (Some r) \<Rightarrow> r
                        | _ \<Rightarrow> zero_record)
             in fn None (Some obj) w)
          else
            (let w1 = (case save_write e of
                         Some err \<Rightarrow> w
                       | None \<Rightarrow>
                           (case doc w of
                              None \<Rightarrow> w\<lparr>doc := Some (Some (snapshot (self w))),
                                         trace := trace w @ [Write (snapshot (self w))]\<rparr>
                            | Some d \<Rightarrow> w\<lparr>doc := Some (Some (snapshot (self w))),
                                           trace := trace w @ [Write (snapshot (self w))]\<rparr>))
             in fn (save_write e) None (emit Save w1)))"

definition save :: "env \<Rightarrow> (error option \<Rightarrow> world \<Rightarrow> world) \<Rightarrow> world \<Rightarrow> world" where
  "save e fn w = connect e (\<lambda>err obj. fn err) False w"

definition load ::
  "env \<Rightarrow> (error option \<Rightarrow> progress option \<Rightarrow> world \<Rightarrow> world) \<Rightarrow> world \<Rightarrow> world" where
  "load e fn w = connect e fn True (emit Load w)"

subsection \<open>\<^verbatim>\<open>positionOfMigration\<close> and \<^verbatim>\<open>Array.prototype.slice\<close>\<close>

fun positionOfMigration_loop :: "migration list \<Rightarrow> string \<Rightarrow> int \<Rightarrow> int" where
  "positionOfMigration_loop [] filename i = - 1"
| "positionOfMigration_loop (m # ms) filename i =
     (if title m = filename then i else positionOfMigration_loop ms filename (i + 1))"

definition positionOfMigration :: "migration list \<Rightarrow> string \<Rightarrow> int" where
  "positionOfMigration ms filename = positionOfMigration_loop ms filename 0"

text \<open>
  \<^verbatim>\<open>xs.slice(start, end)\<close> on integers, as ECMAScript defines it: a negative bound
  counts from the end, both bounds are clamped to the array.
\<close>

definition slice :: "'a list \<Rightarrow> int \<Rightarrow> int \<Rightarrow> 'a list" where
  "slice xs start end =
     (let len = int (length xs);
          k = (if start < 0 then max (len + start) 0 else min start len);
          final = (if end < 0 then max (len + end) 0 else min end len)
      in take (nat (final - k)) (drop (nat k) xs))"

text \<open>\<^verbatim>\<open>xs.shift()\<close>: the first element, or \<^verbatim>\<open>undefined\<close> on an empty array, and the
  array that is left.\<close>

definition shift :: "'a list \<Rightarrow> 'a option \<times> 'a list" where
  "shift xs = (case xs of [] \<Rightarrow> (None, []) | x # r \<Rightarrow> (Some x, r))"

subsection \<open>\<^verbatim>\<open>Set.prototype._migrate\<close>\<close>

text \<open>\<^verbatim>\<open>!migrationName\<close>: no name was passed, or the empty string.\<close>

definition no_name :: "string option \<Rightarrow> bool" where
  "no_name migrationName = (case migrationName of None \<Rightarrow> True | Some n \<Rightarrow> n = [])"

text \<open>\<^verbatim>\<open>migration[direction]\<close>\<close>

definition operation :: "migration \<Rightarrow> direction \<Rightarrow> error option" where
  "operation m d = (case d of Up \<Rightarrow> up m | Down \<Rightarrow> down m)"

text \<open>
  Lines 193 to 200: the target position; \<open>None\<close> when the name matches no unit, where
  the source prints the diagnostic and exits.
\<close>

definition migrationPos :: "migration_set \<Rightarrow> direction \<Rightarrow> string option \<Rightarrow> int option" where
  "migrationPos s d migrationName =
     (if no_name migrationName then
        Some (if d = Up then int (length (migrations s)) else 0)
      else if positionOfMigration (migrations s) (the migrationName) = - 1 then None
      else Some (positionOfMigration (migrations s) (the migrationName)))"

text \<open>Lines 202 to 211: the units to run.\<close>

definition sub_sequence :: "migration_set \<Rightarrow> direction \<Rightarrow> int \<Rightarrow> migration list" where
  "sub_sequence s d mp =
     (case d of
        Up \<Rightarrow> slice (migrations s) (pos s) (mp + 1)
      | Down \<Rightarrow> rev (slice (migrations s) mp (pos s)))"

text \<open>
  The inner function \<^verbatim>\<open>next(err, migration)\<close>; the array \<^verbatim>\<open>migrations\<close> it shifts units
  from is the third argument here.
\<close>

function next_migration ::
  "env \<Rightarrow> direction \<Rightarrow> error option \<Rightarrow> migration option \<Rightarrow> migration list \<Rightarrow> world \<Rightarrow> world"
where
  "next_migration e d err migration queue w =
     (case err of
        Some x \<Rightarrow> process_exit 1 (console_error (toString x) w)
      | None \<Rightarrow>
          (case migration of
             None \<Rightarrow> save e callback (emit Complete w)
           | Some m \<Rightarrow>
               (let w1 = emit (Migration m d) w in
                if force (self w1) then
                  next_migration e d None (fst (shift queue)) (snd (shift queue)) w1
                else
                  next_migration e d (operation m d) (fst (shift queue)) (snd (shift queue))
                    (invoke m d w1))))"
  by pat_completeness auto
termination
  by (relation "measure (\<lambda>(e, d, err, migration, queue, w).
        length queue + (case migration of None \<Rightarrow> 0 | Some m \<Rightarrow> 1))")
     (auto simp: shift_def split: list.splits)

declare next_migration.simps [simp del]

text \<open>Line 237, \<^verbatim>\<open>next(null, migrations.shift())\<close>: the run of a whole queue.\<close>

definition run_queue :: "env \<Rightarrow> direction \<Rightarrow> migration list \<Rightarrow> world \<Rightarrow> world" where
  "run_queue e d ms w = next_migration e d None (fst (shift ms)) (snd (shift ms)) w"

definition migrate_internal :: "env \<Rightarrow> direction \<Rightarrow> string option \<Rightarrow> world \<Rightarrow> world" where
  "migrate_internal e d migrationName w =
     (case migrationPos (self w) d migrationName of
        None \<Rightarrow>
          process_exit 1
            (console_error (''Could not find migration: '' @ the migrationName) w)
      | Some mp \<Rightarrow>
          (let ms = sub_sequence (self w) d mp;
               w1 = (case d of
                       Up \<Rightarrow> w\<lparr>self := (self w)\<lparr>pos := pos (self w) + int (length ms)\<rparr>\<rparr>
                     | Down \<Rightarrow> w\<lparr>self := (self w)\<lparr>pos := pos (self w) - int (length ms)\<rparr>\<rparr>)
           in run_queue e d ms w1))"

subsection \<open>\<^verbatim>\<open>Set.prototype.migrate\<close>, \<^verbatim>\<open>up\<close> and \<^verbatim>\<open>down\<close>\<close>

text \<open>
  The closure \<^verbatim>\<open>migrateFn\<close>, which \<^verbatim>\<open>migrate\<close> runs at once on an open connection and
  on the connection's \<^verbatim>\<open>open\<close> event otherwise. \<^verbatim>\<open>Set.prototype.up\<close> and
  \<^verbatim>\<open>Set.prototype.down\<close> are \<^verbatim>\<open>migrate\<close> with the direction fixed; \<open>set_up\<close> and
  \<open>set_down\<close> are these calls from the moment the closure runs.
\<close>

definition migrateFn :: "env \<Rightarrow> direction \<Rightarrow> string option \<Rightarrow> world \<Rightarrow> world" where
  "migrateFn e d migrationName w =
     load e
       (\<lambda>err obj w1.
          case err of
            Some x \<Rightarrow>
              if code x \<noteq> Some ''ENOENT'' then callback (Some x) w1
              else migrate_internal e d migrationName w1
          | None \<Rightarrow>
              migrate_internal e d migrationName
                (w1\<lparr>self := (self w1)\<lparr>pos := rec_pos (the obj)\<rparr>\<rparr>))
       w"

definition set_up :: "env \<Rightarrow> string option \<Rightarrow> world \<Rightarrow> world" where
  "set_up e migrationName w = migrateFn e Up migrationName w"

definition set_down :: "env \<Rightarrow> string option \<Rightarrow> world \<Rightarrow> world" where
  "set_down e migrationName w = migrateFn e Down migrationName w"

subsection \<open>Reading a trace\<close>

text \<open>What a call added to the trace: the trace after it, without the trace before.\<close>

definition since :: "world \<Rightarrow> world \<Rightarrow> action list" where
  "since w w' = drop (length (trace w)) (trace w')"

text \<open>The units whose operation of direction \<open>d\<close> was invoked, in the order of the calls.\<close>

fun invoked :: "direction \<Rightarrow> action list \<Rightarrow> migration list" where
  "invoked d [] = []"
| "invoked d (Invoke m d' # t) = (if d' = d then m # invoked d t else invoked d t)"
| "invoked d (a # t) = invoked d t"

text \<open>The units announced by a \<^verbatim>\<open>migration\<close> event of direction \<open>d\<close>, in order.\<close>

fun notified :: "direction \<Rightarrow> action list \<Rightarrow> migration list" where
  "notified d [] = []"
| "notified d (Emit (Migration m d') # t) = (if d' = d then m # notified d t else notified d t)"
| "notified d (a # t) = notified d t"

text \<open>The document writes and the completion callbacks of a trace.\<close>

fun writes :: "action list \<Rightarrow> progress list" where
  "writes [] = []"
| "writes (Write r # t) = r # writes t"
| "writes (a # t) = writes t"

fun callbacks :: "action list \<Rightarrow> error option list" where
  "callbacks [] = []"
| "callbacks (Callback err # t) = err # callbacks t"
| "callbacks (a # t) = callbacks t"

text \<open>The invariant of the cursor.\<close>

definition cursor_ok :: "migration_set \<Rightarrow> bool" where
  "cursor_ok s = (0 \<le> pos s \<and> pos s \<le> int (length (migrations s)))"

text \<open>The invariant for the cursor of the stored record, against the list in memory.\<close>

definition stored_ok :: "world \<Rightarrow> bool" where
  "stored_ok w =
     (case doc w of
        Some (Some r) \<Rightarrow> 0 \<le> rec_pos r \<and> rec_pos r \<le> int (length (migrations (self w)))
      | _ \<Rightarrow> True)"

text \<open>
  A call has ended well when the process has not exited and the last thing it did was to
  call the completion callback without an error.
\<close>

definition successful :: "world \<Rightarrow> bool" where
  "successful w = (\<not> exited w \<and> trace w \<noteq> [] \<and> last (trace w) = Callback None)"

text \<open>
  A sequence of \<^verbatim>\<open>up\<close> calls, each with the database behaviour and the target name of the
  call: the worlds after the first call, after the second, and so on.
\<close>

fun up_calls :: "(env \<times> string option) list \<Rightarrow> world \<Rightarrow> world list" where
  "up_calls [] w = []"
| "up_calls ((e, migrationName) # cs) w =
     set_up e migrationName w # up_calls cs (set_up e migrationName w)"

text \<open>What \<^verbatim>\<open>save(fn)\<close> adds to the trace, by the outcome of its two database calls.\<close>

definition save_actions :: "env \<Rightarrow> migration_set \<Rightarrow> action list" where
  "save_actions e s =
     (case save_find e of
        Some err \<Rightarrow> [Callback (Some err)]
      | None \<Rightarrow>
          (case save_write e of
             Some err \<Rightarrow> [Emit Save, Callback (Some err)]
           | None \<Rightarrow> [Write (snapshot s), Emit Save, Callback None]))"

subsection \<open>Sample inputs\<close>

text \<open>Three units that succeed in both directions, one whose operations fail, a set of
  the first three with a given cursor and \<^verbatim>\<open>force\<close> flag in an empty collection, and a
  database whose calls all succeed.\<close>

abbreviation unit_a :: migration where
  "unit_a \<equiv> \<lparr>title = ''001_a'', up = None, down = None\<rparr>"

abbreviation unit_b :: migration where
  "unit_b \<equiv> \<lparr>title = ''002_b'', up = None, down = None\<rparr>"

abbreviation unit_c :: migration where
  "unit_c \<equiv> \<lparr>title = ''003_c'', up = None, down = None\<rparr>"

abbreviation boom :: error where
  "boom \<equiv> Error None ''Error: boom''"

abbreviation unit_x :: migration where
  "unit_x \<equiv> \<lparr>title = ''002_x'', up = Some boom, down = Some boom\<rparr>"

abbreviation world_abc :: "int \<Rightarrow> bool \<Rightarrow> world" where
  "world_abc p f \<equiv>
     \<lparr>self = \<lparr>migrations = [unit_a, unit_b, unit_c], path = ''.migrate'', pos = p, force = f\<rparr>,
      doc = None, trace = [], exited = False\<rparr>"

abbreviation world_axc :: "int \<Rightarrow> bool \<Rightarrow> world" where
  "world_axc p f \<equiv>
     \<lparr>self = \<lparr>migrations = [unit_a, unit_x, unit_c], path = ''.migrate'', pos = p, force = f\<rparr>,
      doc = None, trace = [], exited = False\<rparr>"

abbreviation enoent :: error where
  "enoent \<equiv> Error (Some ''ENOENT'') ''Error: ENOENT: no such file or directory''"

abbreviation db_ok :: env where
  "db_ok \<equiv> \<lparr>load_find = None, save_find = None, save_write = None\<rparr>"

section \<open>How a queue of units runs\<close>

lemma next_err: "next_migration e d (Some x) m q w = process_exit 1 (console_error (toString x) w)"
  by (simp add: next_migration.simps)

lemma run_queue_Nil: "run_queue e d [] w = save e callback (emit Complete w)"
  by (simp add: run_queue_def shift_def next_migration.simps)

lemma run_queue_Cons:
  "run_queue e d (m # ms) w =
     (if force (self w) then run_queue e d ms (emit (Migration m d) w)
      else (case operation m d of
              Some x \<Rightarrow> process_exit 1 (console_error (toString x) (invoke m d (emit (Migration m d) w)))
            | None \<Rightarrow> run_queue e d ms (invoke m d (emit (Migration m d) w))))"
proof -
  have "run_queue e d (m # ms) w = next_migration e d None (Some m) ms w"
    by (simp add: run_queue_def shift_def)
  also have "\<dots> = (let w1 = emit (Migration m d) w in
                if force (self w1) then
                  next_migration e d None (fst (shift ms)) (snd (shift ms)) w1
                else
                  next_migration e d (operation m d) (fst (shift ms)) (snd (shift ms))
                    (invoke m d w1))"
    by (subst next_migration.simps) simp
  also have "\<dots> = (if force (self w) then run_queue e d ms (emit (Migration m d) w)
      else (case operation m d of
              Some x \<Rightarrow> process_exit 1 (console_error (toString x) (invoke m d (emit (Migration m d) w)))
            | None \<Rightarrow> run_queue e d ms (invoke m d (emit (Migration m d) w))))"
    by (simp add: Let_def run_queue_def next_err emit_def split: option.splits)
  finally show ?thesis .
qed

text \<open>The three ways a queue runs: every unit skipped under \<^verbatim>\<open>force\<close>, every unit
  run with success, and a run up to the first unit that reports a failure.\<close>

lemma run_queue_force:
  "force (self w) \<Longrightarrow>
   run_queue e d ms w =
     save e callback (emit Complete (w\<lparr>trace := trace w @ map (\<lambda>m. Emit (Migration m d)) ms\<rparr>))"
proof (induction ms arbitrary: w)
  case Nil
  then show ?case by (simp add: run_queue_Nil)
next
  case (Cons m ms)
  have f: "force (self (emit (Migration m d) w))" using Cons.prems by (simp add: emit_def)
  show ?case
    using Cons.prems by (simp add: run_queue_Cons Cons.IH [OF f]) (simp add: emit_def)
qed

lemma run_queue_ok:
  "\<not> force (self w) \<Longrightarrow> \<forall>m\<in>set ms. operation m d = None \<Longrightarrow>
   run_queue e d ms w =
     save e callback (emit Complete
       (w\<lparr>trace := trace w @ concat (map (\<lambda>m. [Emit (Migration m d), Invoke m d]) ms)\<rparr>))"
proof (induction ms arbitrary: w)
  case Nil
  then show ?case by (simp add: run_queue_Nil)
next
  case (Cons m ms)
  have f: "\<not> force (self (invoke m d (emit (Migration m d) w)))"
    using Cons.prems by (simp add: emit_def invoke_def)
  have r: "\<forall>m\<in>set ms. operation m d = None" using Cons.prems by simp
  show ?case
    using Cons.prems by (simp add: run_queue_Cons Cons.IH [OF f r]) (simp add: emit_def invoke_def)
qed

lemma run_queue_fail:
  "\<not> force (self w) \<Longrightarrow> \<forall>m\<in>set good. operation m d = None \<Longrightarrow> operation bad d = Some x \<Longrightarrow>
   run_queue e d (good @ bad # rest) w =
     process_exit 1 (console_error (toString x)
       (w\<lparr>trace := trace w @ concat (map (\<lambda>m. [Emit (Migration m d), Invoke m d]) (good @ [bad]))\<rparr>))"
proof (induction good arbitrary: w)
  case Nil
  then show ?case by (simp add: run_queue_Cons emit_def invoke_def)
next
  case (Cons m ms)
  have f: "\<not> force (self (invoke m d (emit (Migration m d) w)))"
    using Cons.prems by (simp add: emit_def invoke_def)
  have r: "\<forall>m\<in>set ms. operation m d = None" using Cons.prems by simp
  show ?case
    using Cons.prems by (simp add: run_queue_Cons Cons.IH [OF f r Cons.prems(3)]) (simp add: emit_def invoke_def)
qed

lemma invoked_append: "invoked d (a @ b) = invoked d a @ invoked d b"
  by (induction d a rule: invoked.induct) auto

lemma notified_append: "notified d (a @ b) = notified d a @ notified d b"
  by (induction d a rule: notified.induct) auto

lemma writes_append: "writes (a @ b) = writes a @ writes b"
  by (induction a rule: writes.induct) auto

lemma callbacks_append: "callbacks (a @ b) = callbacks a @ callbacks b"
  by (induction a rule: callbacks.induct) auto

section \<open>Traces, the save, the slice and the target position\<close>

lemma invoked_steps:
  "invoked d' (concat (map (\<lambda>m. [Emit (Migration m d), Invoke m d]) ms)) = (if d' = d then ms else [])"
  by (induction ms) auto

lemma notified_steps:
  "notified d' (concat (map (\<lambda>m. [Emit (Migration m d), Invoke m d]) ms)) = (if d' = d then ms else [])"
  by (induction ms) auto

lemma invoked_skips: "invoked d' (map (\<lambda>m. Emit (Migration m d)) ms) = []"
  by (induction ms) auto

lemma notified_skips:
  "notified d' (map (\<lambda>m. Emit (Migration m d)) ms) = (if d' = d then ms else [])"
  by (induction ms) auto

lemma writes_steps: "writes (concat (map (\<lambda>m. [Emit (Migration m d), Invoke m d]) ms)) = []"
  by (induction ms) auto

lemma callbacks_steps: "callbacks (concat (map (\<lambda>m. [Emit (Migration m d), Invoke m d]) ms)) = []"
  by (induction ms) auto

lemma save_eq:
  "save e callback w =
     w\<lparr>doc := (if save_find e = None \<and> save_write e = None then Some (Some (snapshot (self w)))
               else doc w),
       trace := trace w @ save_actions e (self w)\<rparr>"
  by (cases w) (auto simp: save_def connect_def callback_def emit_def save_actions_def Let_def
      split: option.splits)

lemma slice_up:
  assumes "0 \<le> p" "0 \<le> t + 1"
  shows "slice xs p (t + 1) = take (nat (t + 1 - p)) (drop (nat p) xs)"
  using assms by (auto simp: slice_def Let_def min_def max_def)

lemma slice_down:
  assumes "0 \<le> p" "0 \<le> t"
  shows "slice xs t p = take (nat (p - t)) (drop (nat t) xs)"
  using assms by (auto simp: slice_def Let_def min_def max_def)

lemma pos_loop_absent:
  "filename \<notin> title ` set ms \<Longrightarrow> positionOfMigration_loop ms filename i = - 1"
  by (induction ms arbitrary: i) auto

lemma pos_loop_present:
  "filename \<in> title ` set ms \<Longrightarrow> 0 \<le> i \<Longrightarrow>
   i \<le> positionOfMigration_loop ms filename i \<and>
   positionOfMigration_loop ms filename i < i + int (length ms) \<and>
   title (ms ! nat (positionOfMigration_loop ms filename i - i)) = filename \<and>
   (\<forall>j < nat (positionOfMigration_loop ms filename i - i). title (ms ! j) \<noteq> filename)"
proof (induction ms arbitrary: i)
  case Nil
  then show ?case by simp
next
  case (Cons m ms)
  show ?case
  proof (cases "title m = filename")
    case True
    then show ?thesis by simp
  next
    case False
    with Cons.prems have mem: "filename \<in> title ` set ms" by auto
    from Cons.prems have i1: "0 \<le> i + 1" by simp
    note ih = Cons.IH [OF mem i1]
    let ?r = "positionOfMigration_loop ms filename (i + 1)"
    have eq: "positionOfMigration_loop (m # ms) filename i = ?r" using False by simp
    have n: "nat (?r - i) = Suc (nat (?r - (i + 1)))" using ih by linarith
    show ?thesis
      unfolding eq n using ih False by (auto simp: less_Suc_eq_0_disj)
  qed
qed

lemma positionOfMigration_absent:
  "positionOfMigration ms filename = - 1 \<longleftrightarrow> filename \<notin> title ` set ms"
proof
  assume a: "positionOfMigration ms filename = - 1"
  show "filename \<notin> title ` set ms"
  proof
    assume "filename \<in> title ` set ms"
    from pos_loop_present [OF this, of 0] a show False
      by (simp add: positionOfMigration_def)
  qed
next
  assume "filename \<notin> title ` set ms"
  then show "positionOfMigration ms filename = - 1"
    by (simp add: positionOfMigration_def pos_loop_absent)
qed

lemma positionOfMigration_found:
  assumes "positionOfMigration ms filename \<noteq> - 1"
  shows "0 \<le> positionOfMigration ms filename \<and>
         positionOfMigration ms filename < int (length ms) \<and>
         title (ms ! nat (positionOfMigration ms filename)) = filename \<and>
         (\<forall>j < nat (positionOfMigration ms filename). title (ms ! j) \<noteq> filename)"
proof -
  from assms have "filename \<in> title ` set ms"
    using positionOfMigration_absent by blast
  from pos_loop_present [OF this, of 0] show ?thesis
    by (simp add: positionOfMigration_def)
qed

lemma migrationPos_no_name:
  "no_name n \<Longrightarrow> migrationPos s d n = Some (if d = Up then int (length (migrations s)) else 0)"
  by (simp add: migrationPos_def)

lemma migrationPos_None:
  "migrationPos s d n = None \<longleftrightarrow> \<not> no_name n \<and> the n \<notin> title ` set (migrations s)"
  by (auto simp: migrationPos_def positionOfMigration_absent)

lemma migrationPos_named:
  assumes "\<not> no_name n" "migrationPos s d n = Some t"
  shows "0 \<le> t \<and> t < int (length (migrations s)) \<and> title (migrations s ! nat t) = the n \<and>
         (\<forall>j < nat t. title (migrations s ! j) \<noteq> the n)"
proof -
  from assms have t: "t = positionOfMigration (migrations s) (the n)"
    and ne: "positionOfMigration (migrations s) (the n) \<noteq> - 1"
    by (auto simp: migrationPos_def split: if_splits)
  from positionOfMigration_found [OF ne] show ?thesis unfolding t .
qed

lemma migrationPos_nonneg: "migrationPos s d n = Some t \<Longrightarrow> 0 \<le> t \<and> t \<le> int (length (migrations s))"
  using migrationPos_named [of n s d t] by (cases "no_name n") (auto simp: migrationPos_no_name)

lemma migrate_internal_unresolved:
  "migrationPos (self w) d n = None \<Longrightarrow>
   migrate_internal e d n w =
     process_exit 1 (console_error (''Could not find migration: '' @ the n) w)"
  by (simp add: migrate_internal_def)

lemma migrate_internal_resolved:
  "migrationPos (self w) d n = Some t \<Longrightarrow>
   migrate_internal e d n w =
     run_queue e d (sub_sequence (self w) d t)
       (w\<lparr>self := (self w)\<lparr>pos := (if d = Up then pos (self w) + int (length (sub_sequence (self w) d t))
                                    else pos (self w) - int (length (sub_sequence (self w) d t)))\<rparr>\<rparr>)"
  by (cases d) (simp_all add: migrate_internal_def Let_def)

lemma run_queue_cases:
  obtains (skipped) "force (self w)"
      "run_queue e d ms w =
         save e callback (emit Complete (w\<lparr>trace := trace w @ map (\<lambda>m. Emit (Migration m d)) ms\<rparr>))"
    | (completed) "\<not> force (self w)" "\<forall>m\<in>set ms. operation m d = None"
      "run_queue e d ms w =
         save e callback (emit Complete
           (w\<lparr>trace := trace w @ concat (map (\<lambda>m. [Emit (Migration m d), Invoke m d]) ms)\<rparr>))"
    | (failed) good bad rest x where "\<not> force (self w)" "ms = good @ bad # rest"
      "\<forall>m\<in>set good. operation m d = None" "operation bad d = Some x"
      "run_queue e d ms w =
         process_exit 1 (console_error (toString x)
           (w\<lparr>trace := trace w @
              concat (map (\<lambda>m. [Emit (Migration m d), Invoke m d]) (good @ [bad]))\<rparr>))"
proof (cases "force (self w)")
  case True
  then show ?thesis using skipped run_queue_force by blast
next
  case nf: False
  show ?thesis
  proof (cases "\<forall>m\<in>set ms. operation m d = None")
    case True
    then show ?thesis using completed nf run_queue_ok by blast
  next
    case False
    then have "\<exists>m\<in>set ms. operation m d \<noteq> None" by blast
    then obtain good bad rest where ms: "ms = good @ bad # rest"
      and bad: "operation bad d \<noteq> None" and good: "\<forall>m\<in>set good. \<not> operation m d \<noteq> None"
      using split_list_first_prop [of ms "\<lambda>m. operation m d \<noteq> None"] by blast
    from bad obtain x where x: "operation bad d = Some x" by blast
    from good have g: "\<forall>m\<in>set good. operation m d = None" by simp
    show ?thesis
      using failed [OF nf ms g x] run_queue_fail [OF nf g x, of e rest] ms by simp
  qed
qed

lemma invoked_save_actions: "invoked d (save_actions e s) = []"
  by (simp add: save_actions_def split: option.splits)

lemma notified_save_actions: "notified d (save_actions e s) = []"
  by (simp add: save_actions_def split: option.splits)

lemma since_finished:
  "since w (save e callback (emit Complete (w\<lparr>trace := trace w @ t\<rparr>))) =
     t @ Emit Complete # save_actions e (self w)"
  by (simp add: since_def save_eq emit_def)

lemma since_exited:
  "since w (process_exit n (console_error s (w\<lparr>trace := trace w @ t\<rparr>))) =
     t @ [Console_error s, Exit n]"
  by (simp add: since_def process_exit_def console_error_def)

lemma self_finished: "self (save e callback (emit Complete (w\<lparr>trace := t\<rparr>))) = self w"
  by (simp add: save_eq emit_def)

lemma self_exited: "self (process_exit n (console_error s (w\<lparr>trace := t\<rparr>))) = self w"
  by (simp add: process_exit_def console_error_def)

lemma run_queue_self: "self (run_queue e d ms w) = self w"
  by (rule run_queue_cases [of w e d ms]) (simp_all add: self_finished self_exited)

lemma run_queue_invoked_other: "d' \<noteq> d \<Longrightarrow> invoked d' (since w (run_queue e d ms w)) = []"
  by (rule run_queue_cases [of w e d ms])
     (simp_all add: since_finished since_exited invoked_append invoked_skips invoked_steps
        invoked_save_actions del: map_append)

lemma run_queue_invoked_prefix: "prefix (invoked d (since w (run_queue e d ms w))) ms"
  by (rule run_queue_cases [of w e d ms])
     (simp_all add: since_finished since_exited invoked_append invoked_skips invoked_steps
        invoked_save_actions del: map_append)

lemma run_queue_invoked_all:
  "\<not> force (self w) \<Longrightarrow> \<forall>m\<in>set ms. operation m d = None \<Longrightarrow>
   invoked d (since w (run_queue e d ms w)) = ms"
  by (simp add: run_queue_ok since_finished invoked_append invoked_steps invoked_save_actions)

lemma since_self_update [simp]: "since (w\<lparr>self := s\<rparr>) w' = since w w'"
  by (simp add: since_def)

section \<open>Whole calls\<close>

lemma steps_no_complete:
  "Emit Complete \<notin> set (concat (map (\<lambda>m. [Emit (Migration m d), Invoke m d]) ms)) \<and>
   Emit Save \<notin> set (concat (map (\<lambda>m. [Emit (Migration m d), Invoke m d]) ms))"
  by (induction ms) auto

lemma first_failure:
  assumes "\<exists>m\<in>set q. operation m d \<noteq> None"
  obtains bad rest x where
    "q = takeWhile (\<lambda>m. operation m d = None) q @ bad # rest"
    "dropWhile (\<lambda>m. operation m d = None) q = bad # rest"
    "operation bad d = Some x"
proof -
  let ?ok = "\<lambda>m. operation m d = None"
  from assms have "dropWhile ?ok q \<noteq> []" by (simp add: dropWhile_eq_Nil_conv) 
  then obtain bad rest where dw: "dropWhile ?ok q = bad # rest" by (cases "dropWhile ?ok q") auto
  then have "\<not> ?ok bad" using hd_dropWhile [of ?ok q] by auto
  then obtain x where x: "operation bad d = Some x" by auto
  have "q = takeWhile ?ok q @ bad # rest" using takeWhile_dropWhile_id [of ?ok q] dw by simp
  with dw x show ?thesis using that by blast
qed

lemma run_queue_trace: "trace (run_queue e d ms w) = trace w @ since w (run_queue e d ms w)"
proof (rule run_queue_cases [of w e d ms])
  assume "run_queue e d ms w =
         save e callback (emit Complete (w\<lparr>trace := trace w @ map (\<lambda>m. Emit (Migration m d)) ms\<rparr>))"
  then show ?thesis by (simp add: since_def save_eq emit_def)
next
  assume "run_queue e d ms w =
         save e callback (emit Complete
           (w\<lparr>trace := trace w @ concat (map (\<lambda>m. [Emit (Migration m d), Invoke m d]) ms)\<rparr>))"
  then show ?thesis by (simp add: since_def save_eq emit_def)
next
  fix good bad rest x
  assume "run_queue e d ms w =
         process_exit 1 (console_error (toString x)
           (w\<lparr>trace := trace w @
              concat (map (\<lambda>m. [Emit (Migration m d), Invoke m d]) (good @ [bad]))\<rparr>))"
  then show ?thesis by (simp add: since_def process_exit_def console_error_def)
qed

lemma migrate_internal_trace:
  "trace (migrate_internal e d n w) = trace w @ since w (migrate_internal e d n w)"
proof (cases "migrationPos (self w) d n")
  case None
  then show ?thesis
    by (simp add: migrate_internal_unresolved since_def process_exit_def console_error_def)
next
  case (Some t)
  let ?w1 = "w\<lparr>self := (self w)\<lparr>pos := (if d = Up then pos (self w) + int (length (sub_sequence (self w) d t))
                                    else pos (self w) - int (length (sub_sequence (self w) d t)))\<rparr>\<rparr>"
  show ?thesis
    unfolding migrate_internal_resolved [OF Some]
    using run_queue_trace [of e d "sub_sequence (self w) d t" ?w1] by simp
qed

lemma since_trans:
  "trace w1 = trace w @ t \<Longrightarrow> trace w2 = trace w1 @ u \<Longrightarrow> since w w2 = t @ since w1 w2"
  by (simp add: since_def)

lemma migrateFn_loaded:
  "load_find e = None \<Longrightarrow>
   migrateFn e d n w =
     migrate_internal e d n
       ((emit Load w)\<lparr>self := (self w)\<lparr>pos := (case doc w of Some (Some r) \<Rightarrow> rec_pos r | _ \<Rightarrow> 0)\<rparr>\<rparr>)"
  by (simp add: migrateFn_def load_def connect_def emit_def zero_record_def Let_def
      split: option.splits)

lemma migrateFn_enoent:
  "load_find e = Some x \<Longrightarrow> code x = Some ''ENOENT'' \<Longrightarrow>
   migrateFn e d n w = migrate_internal e d n (emit Load w)"
  by (simp add: migrateFn_def load_def connect_def)

lemma migrateFn_load_error:
  "load_find e = Some x \<Longrightarrow> code x \<noteq> Some ''ENOENT'' \<Longrightarrow>
   migrateFn e d n w = callback (Some x) (emit Load w)"
  by (simp add: migrateFn_def load_def connect_def)

lemma since_after_load:
  assumes "trace w1 = trace w @ [Emit Load]"
  shows "since w (migrate_internal e d n w1) = Emit Load # since w1 (migrate_internal e d n w1)"
  using since_trans [OF assms migrate_internal_trace [of e d n w1]] by simp

lemma sub_sequence_force [simp]: "sub_sequence (s\<lparr>force := b\<rparr>) d t = sub_sequence s d t"
  by (simp add: sub_sequence_def split: direction.splits)

lemma migrationPos_force [simp]: "migrationPos (s\<lparr>force := b\<rparr>) d n = migrationPos s d n"
  by (simp add: migrationPos_def)

lemma snapshot_force [simp]: "snapshot (s\<lparr>force := b\<rparr>) = snapshot s"
  by (simp add: snapshot_def)

lemma doc_finished:
  "doc (save e callback (emit Complete (w\<lparr>trace := t\<rparr>))) =
     (if save_find e = None \<and> save_write e = None then Some (Some (snapshot (self w))) else doc w)"
  by (simp add: save_eq emit_def)

lemma migrate_internal_completed:
  assumes "\<not> force (self w)" "migrationPos (self w) d n = Some t"
    and "\<forall>m\<in>set (sub_sequence (self w) d t). operation m d = None"
  shows "migrate_internal e d n w =
     save e callback (emit Complete
       (w\<lparr>self := (self w)\<lparr>pos := (if d = Up then pos (self w) + int (length (sub_sequence (self w) d t))
                                    else pos (self w) - int (length (sub_sequence (self w) d t)))\<rparr>,
          trace := trace w @
            concat (map (\<lambda>m. [Emit (Migration m d), Invoke m d]) (sub_sequence (self w) d t))\<rparr>))"
proof -
  let ?q = "sub_sequence (self w) d t"
  let ?w1 = "w\<lparr>self := (self w)\<lparr>pos := (if d = Up then pos (self w) + int (length ?q)
                                    else pos (self w) - int (length ?q))\<rparr>\<rparr>"
  have nf: "\<not> force (self ?w1)" using assms(1) by simp
  show ?thesis
    unfolding migrate_internal_resolved [OF assms(2)] run_queue_ok [OF nf assms(3)] by simp
qed

lemma migrate_internal_self:
  "self (migrate_internal e d n w) =
     (case migrationPos (self w) d n of
        None \<Rightarrow> self w
      | Some t \<Rightarrow>
          (self w)\<lparr>pos := (if d = Up then pos (self w) + int (length (sub_sequence (self w) d t))
                           else pos (self w) - int (length (sub_sequence (self w) d t)))\<rparr>)"
proof (cases "migrationPos (self w) d n")
  case None
  then show ?thesis
    by (simp add: migrate_internal_unresolved process_exit_def console_error_def)
next
  case (Some t)
  then show ?thesis by (simp add: migrate_internal_resolved run_queue_self)
qed

lemma length_up_queue:
  assumes "cursor_ok s" "migrationPos s Up n = Some t"
  shows "pos s + int (length (sub_sequence s Up t)) \<le> int (length (migrations s))"
proof -
  from migrationPos_nonneg [OF assms(2)] have t0: "0 \<le> t + 1" by simp
  have "sub_sequence s Up t = take (nat (t + 1 - pos s)) (drop (nat (pos s)) (migrations s))"
    using slice_up [of "pos s" t "migrations s"] assms(1) t0
    by (simp add: sub_sequence_def cursor_ok_def)
  then show ?thesis using assms(1) by (auto simp: cursor_ok_def min_def)
qed

lemma length_down_queue:
  assumes "cursor_ok s" "migrationPos s Down n = Some t"
  shows "int (length (sub_sequence s Down t)) \<le> pos s"
proof -
  from migrationPos_nonneg [OF assms(2)] have t0: "0 \<le> t" by simp
  have "sub_sequence s Down t = rev (take (nat (pos s - t)) (drop (nat t) (migrations s)))"
    using slice_down [of "pos s" t "migrations s"] assms(1) t0
    by (simp add: sub_sequence_def cursor_ok_def)
  then show ?thesis using assms(1) t0 by (auto simp: cursor_ok_def min_def)
qed

lemma migrate_internal_cursor_ok:
  assumes "cursor_ok (self w)"
  shows "cursor_ok (self (migrate_internal e d n w)) \<and>
         migrations (self (migrate_internal e d n w)) = migrations (self w)"
proof (cases "migrationPos (self w) d n")
  case None
  then show ?thesis using assms by (simp add: migrate_internal_self)
next
  case (Some t)
  show ?thesis
  proof (cases d)
    case Up
    with Some length_up_queue [OF assms, of n t] assms show ?thesis
      by (simp add: migrate_internal_self cursor_ok_def)
  next
    case Down
    with Some length_down_queue [OF assms, of n t] assms show ?thesis
      by (simp add: migrate_internal_self cursor_ok_def)
  qed
qed

lemma run_queue_doc:
  "doc (run_queue e d ms w) = doc w \<or>
   (doc (run_queue e d ms w) = Some (Some (snapshot (self w))) \<and>
    (\<exists>t. trace (run_queue e d ms w) = t @ [Callback None]))"
  by (rule run_queue_cases [of w e d ms])
     (auto simp: save_eq emit_def process_exit_def console_error_def save_actions_def
        split: option.splits)

lemma run_queue_successful:
  "successful (run_queue e d ms w) \<Longrightarrow>
   doc (run_queue e d ms w) = Some (Some (snapshot (self w)))"
  by (rule run_queue_cases [of w e d ms])
     (auto simp: successful_def save_eq emit_def process_exit_def console_error_def
        save_actions_def split: option.splits if_splits)

lemma migrate_internal_doc:
  "doc (migrate_internal e d n w) = doc w \<or>
   doc (migrate_internal e d n w) = Some (Some (snapshot (self (migrate_internal e d n w))))"
proof (cases "migrationPos (self w) d n")
  case None
  then show ?thesis
    by (simp add: migrate_internal_unresolved process_exit_def console_error_def)
next
  case (Some t)
  let ?w1 = "w\<lparr>self := (self w)\<lparr>pos := (if d = Up then pos (self w) + int (length (sub_sequence (self w) d t))
                                    else pos (self w) - int (length (sub_sequence (self w) d t)))\<rparr>\<rparr>"
  from run_queue_doc [of e d "sub_sequence (self w) d t" ?w1] show ?thesis
    unfolding migrate_internal_resolved [OF Some] run_queue_self by auto
qed

lemma migrate_internal_successful:
  assumes "successful (migrate_internal e d n w)"
  shows "doc (migrate_internal e d n w) = Some (Some (snapshot (self (migrate_internal e d n w))))"
proof (cases "migrationPos (self w) d n")
  case None
  with assms show ?thesis
    by (simp add: migrate_internal_unresolved process_exit_def console_error_def successful_def)
next
  case (Some t)
  let ?w1 = "w\<lparr>self := (self w)\<lparr>pos := (if d = Up then pos (self w) + int (length (sub_sequence (self w) d t))
                                    else pos (self w) - int (length (sub_sequence (self w) d t)))\<rparr>\<rparr>"
  from assms run_queue_successful [of e d "sub_sequence (self w) d t" ?w1] show ?thesis
    unfolding migrate_internal_resolved [OF Some] run_queue_self by auto
qed

lemma migrateFn_cases:
  obtains (refused) x where "load_find e = Some x" "code x \<noteq> Some ''ENOENT''"
      "migrateFn e d n w = callback (Some x) (emit Load w)"
    | (ran) w1 where "migrateFn e d n w = migrate_internal e d n w1"
      "migrations (self w1) = migrations (self w)" "force (self w1) = force (self w)"
      "doc w1 = doc w" "trace w1 = trace w @ [Emit Load]" "exited w1 = exited w"
      "pos (self w1) =
         (case load_find e of
            None \<Rightarrow> (case doc w of Some (Some r) \<Rightarrow> rec_pos r | _ \<Rightarrow> 0)
          | Some x \<Rightarrow> pos (self w))"
proof (cases "load_find e")
  case None
  show ?thesis
    by (rule ran [OF migrateFn_loaded [OF None]]) (simp_all add: emit_def None)
next
  case (Some x)
  show ?thesis
  proof (cases "code x = Some ''ENOENT''")
    case True
    show ?thesis
      by (rule ran [OF migrateFn_enoent [OF Some True]]) (simp_all add: emit_def Some)
  next
    case False
    show ?thesis by (rule refused [OF Some False migrateFn_load_error [OF Some False]])
  qed
qed

lemma migrateFn_invariant:
  assumes "cursor_ok (self w)" "stored_ok w"
  shows "cursor_ok (self (migrateFn e d n w)) \<and> stored_ok (migrateFn e d n w) \<and>
         migrations (self (migrateFn e d n w)) = migrations (self w)"
proof (cases rule: migrateFn_cases [of e d n w])
  case (refused x)
  then show ?thesis using assms by (simp add: callback_def emit_def stored_ok_def split: option.splits)
next
  case (ran w1)
  have c1: "cursor_ok (self w1)"
    using assms ran(2,4,7)
    by (auto simp: cursor_ok_def stored_ok_def split: option.splits)
  note m = migrate_internal_cursor_ok [OF c1, of e d n]
  have "stored_ok (migrate_internal e d n w1)"
    using migrate_internal_doc [of e d n w1] m assms(2) ran(2,4)
    by (auto simp: stored_ok_def cursor_ok_def snapshot_def split: option.splits)
  with m ran(1,2) show ?thesis by simp
qed

lemma migrateFn_successful:
  assumes "successful (migrateFn e d n w)"
  shows "doc (migrateFn e d n w) = Some (Some (snapshot (self (migrateFn e d n w))))"
proof (cases rule: migrateFn_cases [of e d n w])
  case (refused x)
  with assms show ?thesis by (simp add: successful_def callback_def emit_def)
next
  case (ran w1)
  with assms migrate_internal_successful [of e d n w1] show ?thesis by simp
qed

lemma set_up_monotone:
  assumes "doc w = Some (Some (snapshot (self w)))"
  shows "pos (self w) \<le> pos (self (set_up e n w))"
proof (cases rule: migrateFn_cases [of e Up n w])
  case (refused x)
  then show ?thesis by (simp add: set_up_def callback_def emit_def)
next
  case (ran w1)
  have "pos (self w1) = pos (self w)"
    using ran(7) assms by (simp add: snapshot_def split: option.splits)
  then show ?thesis
    unfolding set_up_def ran(1)
    by (simp add: migrate_internal_self split: option.splits)
qed

lemma up_calls_monotone:
  assumes "cursor_ok (self w)" "stored_ok w" "\<forall>w'\<in>set (up_calls cs w). successful w'"
  shows "sorted (map (\<lambda>w'. pos (self w')) (up_calls cs w)) \<and>
         (\<forall>w'\<in>set (up_calls cs w).
            cursor_ok (self w') \<and> migrations (self w') = migrations (self w)) \<and>
         (doc w = Some (Some (snapshot (self w))) \<longrightarrow>
            (\<forall>w'\<in>set (up_calls cs w). pos (self w) \<le> pos (self w')))"
  using assms
proof (induction cs arbitrary: w)
  case Nil
  then show ?case by simp
next
  case (Cons c cs)
  obtain e n where c: "c = (e, n)" by (cases c)
  let ?w1 = "set_up e n w"
  from Cons.prems(3) have s1: "successful ?w1" and rest: "\<forall>w'\<in>set (up_calls cs ?w1). successful w'"
    by (simp_all add: c)
  from migrateFn_invariant [OF Cons.prems(1,2), of e Up n]
  have inv: "cursor_ok (self ?w1)" "stored_ok ?w1" "migrations (self ?w1) = migrations (self w)"
    by (simp_all add: set_up_def)
  from migrateFn_successful [of e Up n w] s1
  have sync: "doc ?w1 = Some (Some (snapshot (self ?w1)))" by (simp add: set_up_def)
  note ih = Cons.IH [OF inv(1,2) rest]
  from ih sync have above: "\<forall>w'\<in>set (up_calls cs ?w1). pos (self ?w1) \<le> pos (self w')"
    by blast
  have a: "sorted (map (\<lambda>w'. pos (self w')) (up_calls (c # cs) w))"
    using ih above by (simp add: c)
  have b: "\<forall>w'\<in>set (up_calls (c # cs) w).
            cursor_ok (self w') \<and> migrations (self w') = migrations (self w)"
    using ih inv by (simp add: c)
  have d: "\<forall>w'\<in>set (up_calls (c # cs) w). pos (self w) \<le> pos (self w')"
    if "doc w = Some (Some (snapshot (self w)))"
    using set_up_monotone [OF that, of e n] above by (auto simp: c)
  from a b d show ?case by blast
qed

text \<open>The equations that run a call on a concrete input.\<close>

lemmas run_eval =
  set_up_def set_down_def migrateFn_def load_def connect_def migrate_internal_def
  migrationPos_def no_name_def positionOfMigration_def sub_sequence_def slice_def
  run_queue_Cons run_queue_Nil save_eq save_actions_def emit_def invoke_def callback_def
  process_exit_def console_error_def operation_def snapshot_def zero_record_def Let_def

lemma migrate_internal_completed_obs:
  assumes "\<not> force (self w)" "migrationPos (self w) d n = Some t"
    and "\<forall>m\<in>set (sub_sequence (self w) d t). operation m d = None"
  shows "invoked d' (since w (migrate_internal e d n w)) =
           (if d' = d then sub_sequence (self w) d t else [])"
    and "doc (migrate_internal e d n w) =
           (if save_find e = None \<and> save_write e = None
            then Some (Some (snapshot (self (migrate_internal e d n w)))) else doc w)"
proof -
  let ?q = "sub_sequence (self w) d t"
  let ?s1 = "(self w)\<lparr>pos := (if d = Up then pos (self w) + int (length ?q)
                                    else pos (self w) - int (length ?q))\<rparr>"
  note fin = migrate_internal_completed [OF assms, of e]
  have s: "since w (migrate_internal e d n w) =
     concat (map (\<lambda>m. [Emit (Migration m d), Invoke m d]) ?q) @
     Emit Complete # save_actions e ?s1"
    unfolding fin
    using since_finished [of "w\<lparr>self := ?s1\<rparr>" e
        "concat (map (\<lambda>m. [Emit (Migration m d), Invoke m d]) ?q)"]
    by simp
  show "invoked d' (since w (migrate_internal e d n w)) = (if d' = d then ?q else [])"
    unfolding s by (simp add: invoked_append invoked_steps invoked_save_actions)
  have sf: "self (migrate_internal e d n w) = ?s1"
    using assms(2) by (simp add: migrate_internal_self)
  show "doc (migrate_internal e d n w) =
           (if save_find e = None \<and> save_write e = None
            then Some (Some (snapshot (self (migrate_internal e d n w)))) else doc w)"
    unfolding sf unfolding fin by (simp add: doc_finished)
qed

section \<open>The claims\<close>

text \<open>
  Claim C1. An \<^verbatim>\<open>up\<close> call that starts from the cursor \<open>pos\<close> computes the queue
  \<open>migrations[pos .. t]\<close>, the unit at the target index \<open>t\<close> included, where \<open>t\<close> is the
  index of the unit the given name is the title of, or the length of the list when no
  name is given. The \<^verbatim>\<open>up\<close> operations invoked are always a prefix of that queue, in
  its order, no \<^verbatim>\<open>down\<close> operation is invoked, and when every unit of the queue
  succeeds (and \<^verbatim>\<open>force\<close> is off) they are the whole queue. The cursor advances by the
  length of the queue.
\<close>

theorem C1_up_runs_range:
  assumes "0 \<le> pos (self w)"
    and "migrationPos (self w) Up migrationName = Some t"
  shows "sub_sequence (self w) Up t =
           take (nat (t + 1 - pos (self w))) (drop (nat (pos (self w))) (migrations (self w))) \<and>
         (no_name migrationName \<longrightarrow> t = int (length (migrations (self w)))) \<and>
         (\<not> no_name migrationName \<longrightarrow>
            0 \<le> t \<and> t < int (length (migrations (self w))) \<and>
            title (migrations (self w) ! nat t) = the migrationName) \<and>
         prefix (invoked Up (since w (migrate_internal e Up migrationName w)))
           (sub_sequence (self w) Up t) \<and>
         invoked Down (since w (migrate_internal e Up migrationName w)) = [] \<and>
         (\<not> force (self w) \<and> (\<forall>m\<in>set (sub_sequence (self w) Up t). up m = None) \<longrightarrow>
            invoked Up (since w (migrate_internal e Up migrationName w)) =
              sub_sequence (self w) Up t) \<and>
         pos (self (migrate_internal e Up migrationName w)) =
           pos (self w) + int (length (sub_sequence (self w) Up t))"
proof -
  let ?q = "sub_sequence (self w) Up t"
  let ?w1 = "w\<lparr>self := (self w)\<lparr>pos := pos (self w) + int (length ?q)\<rparr>\<rparr>"
  have run: "migrate_internal e Up migrationName w = run_queue e Up ?q ?w1"
    using migrate_internal_resolved [OF assms(2), of e] by simp
  from migrationPos_nonneg [OF assms(2)] have t0: "0 \<le> t + 1" by simp
  have range: "?q = take (nat (t + 1 - pos (self w))) (drop (nat (pos (self w))) (migrations (self w)))"
    using slice_up [OF assms(1) t0] by (simp add: sub_sequence_def)
  have unnamed: "no_name migrationName \<longrightarrow> t = int (length (migrations (self w)))"
    using assms(2) by (auto simp: migrationPos_no_name)
  have named: "\<not> no_name migrationName \<longrightarrow>
            0 \<le> t \<and> t < int (length (migrations (self w))) \<and>
            title (migrations (self w) ! nat t) = the migrationName"
    using migrationPos_named [OF _ assms(2)] by blast
  have pre: "prefix (invoked Up (since w (migrate_internal e Up migrationName w))) ?q"
    using run_queue_invoked_prefix [of Up ?w1 e ?q] by (simp add: run)
  have other: "invoked Down (since w (migrate_internal e Up migrationName w)) = []"
    using run_queue_invoked_other [of Down Up ?w1 e ?q] by (simp add: run)
  have all: "\<not> force (self w) \<and> (\<forall>m\<in>set ?q. up m = None) \<longrightarrow>
            invoked Up (since w (migrate_internal e Up migrationName w)) = ?q"
    using run_queue_invoked_all [of ?w1 ?q Up e] by (simp add: run operation_def)
  have cursor: "pos (self (migrate_internal e Up migrationName w)) = pos (self w) + int (length ?q)"
    by (simp add: run run_queue_self)
  from range unnamed named pre other all cursor show ?thesis by blast
qed

theorem C1_up_runs_range_witness:
  "0 \<le> pos (self (world_abc 1 False)) \<and>
   migrationPos (self (world_abc 1 False)) Up (Some ''002_b'') = Some 1 \<and>
   \<not> no_name (Some ''002_b'') \<and> \<not> force (self (world_abc 1 False)) \<and>
   sub_sequence (self (world_abc 1 False)) Up 1 = [unit_b] \<and> up unit_b = None \<and>
   invoked Up (since (world_abc 1 False)
                 (migrate_internal db_ok Up (Some ''002_b'') (world_abc 1 False))) = [unit_b] \<and>
   pos (self (migrate_internal db_ok Up (Some ''002_b'') (world_abc 1 False))) = 2 \<and>
   migrationPos (self (world_abc 0 False)) Up None = Some 3 \<and> no_name None \<and>
   sub_sequence (self (world_abc 0 False)) Up 3 = [unit_a, unit_b, unit_c] \<and>
   map up [unit_a, unit_b, unit_c] = [None, None, None] \<and>
   invoked Up (since (world_abc 0 False) (migrate_internal db_ok Up None (world_abc 0 False))) =
     [unit_a, unit_b, unit_c] \<and>
   pos (self (migrate_internal db_ok Up None (world_abc 0 False))) = 3"
proof -
  have a: "0 \<le> pos (self (world_abc 1 False))" by simp
  have b: "migrationPos (self (world_abc 1 False)) Up (Some ''002_b'') = Some 1" by code_simp
  have q: "sub_sequence (self (world_abc 1 False)) Up 1 = [unit_b]" by code_simp
  have a': "0 \<le> pos (self (world_abc 0 False))" by simp
  have b': "migrationPos (self (world_abc 0 False)) Up None = Some 3" by code_simp
  have q': "sub_sequence (self (world_abc 0 False)) Up 3 = [unit_a, unit_b, unit_c]" by code_simp
  have n: "\<not> no_name (Some ''002_b'')" "no_name None" by (simp_all add: no_name_def)
  have f: "\<not> force (self (world_abc 1 False))" by simp
  have u: "up unit_b = None" "map up [unit_a, unit_b, unit_c] = [None, None, None]"
    by simp_all
  have i: "invoked Up (since (world_abc 1 False)
                 (migrate_internal db_ok Up (Some ''002_b'') (world_abc 1 False))) = [unit_b] \<and>
   pos (self (migrate_internal db_ok Up (Some ''002_b'') (world_abc 1 False))) = 2"
    using C1_up_runs_range [OF a b, of db_ok, unfolded q] by simp
  have i': "invoked Up (since (world_abc 0 False) (migrate_internal db_ok Up None (world_abc 0 False))) =
     [unit_a, unit_b, unit_c] \<and>
   pos (self (migrate_internal db_ok Up None (world_abc 0 False))) = 3"
    using C1_up_runs_range [OF a' b', of db_ok, unfolded q'] by simp
  show ?thesis using a b n f q u i b' q' i' by blast
qed

text \<open>
  Claim C2. A \<^verbatim>\<open>down\<close> call that starts from the cursor \<open>pos\<close> computes the queue
  \<open>migrations[t .. pos)\<close> reversed, where \<open>t\<close> is the index of the unit the given name is
  the title of, or 0 when no name is given. The \<^verbatim>\<open>down\<close> operations invoked are always a
  prefix of that queue, in its order (the unit applied last comes first), no \<^verbatim>\<open>up\<close>
  operation is invoked, and when every unit of the queue succeeds (and \<^verbatim>\<open>force\<close> is off)
  they are the whole queue. The cursor decreases by the length of the queue.
\<close>

theorem C2_down_runs_range:
  assumes "0 \<le> pos (self w)"
    and "migrationPos (self w) Down migrationName = Some t"
  shows "sub_sequence (self w) Down t =
           rev (take (nat (pos (self w) - t)) (drop (nat t) (migrations (self w)))) \<and>
         (no_name migrationName \<longrightarrow> t = 0) \<and>
         (\<not> no_name migrationName \<longrightarrow>
            0 \<le> t \<and> t < int (length (migrations (self w))) \<and>
            title (migrations (self w) ! nat t) = the migrationName) \<and>
         prefix (invoked Down (since w (migrate_internal e Down migrationName w)))
           (sub_sequence (self w) Down t) \<and>
         invoked Up (since w (migrate_internal e Down migrationName w)) = [] \<and>
         (\<not> force (self w) \<and> (\<forall>m\<in>set (sub_sequence (self w) Down t). down m = None) \<longrightarrow>
            invoked Down (since w (migrate_internal e Down migrationName w)) =
              sub_sequence (self w) Down t) \<and>
         pos (self (migrate_internal e Down migrationName w)) =
           pos (self w) - int (length (sub_sequence (self w) Down t))"
proof -
  let ?q = "sub_sequence (self w) Down t"
  let ?w1 = "w\<lparr>self := (self w)\<lparr>pos := pos (self w) - int (length ?q)\<rparr>\<rparr>"
  have run: "migrate_internal e Down migrationName w = run_queue e Down ?q ?w1"
    using migrate_internal_resolved [OF assms(2), of e] by simp
  from migrationPos_nonneg [OF assms(2)] have t0: "0 \<le> t" by simp
  have range: "?q = rev (take (nat (pos (self w) - t)) (drop (nat t) (migrations (self w))))"
    using slice_down [OF assms(1) t0] by (simp add: sub_sequence_def)
  have unnamed: "no_name migrationName \<longrightarrow> t = 0"
    using assms(2) by (auto simp: migrationPos_no_name)
  have named: "\<not> no_name migrationName \<longrightarrow>
            0 \<le> t \<and> t < int (length (migrations (self w))) \<and>
            title (migrations (self w) ! nat t) = the migrationName"
    using migrationPos_named [OF _ assms(2)] by blast
  have pre: "prefix (invoked Down (since w (migrate_internal e Down migrationName w))) ?q"
    using run_queue_invoked_prefix [of Down ?w1 e ?q] by (simp add: run)
  have other: "invoked Up (since w (migrate_internal e Down migrationName w)) = []"
    using run_queue_invoked_other [of Up Down ?w1 e ?q] by (simp add: run)
  have all: "\<not> force (self w) \<and> (\<forall>m\<in>set ?q. down m = None) \<longrightarrow>
            invoked Down (since w (migrate_internal e Down migrationName w)) = ?q"
    using run_queue_invoked_all [of ?w1 ?q Down e] by (simp add: run operation_def)
  have cursor: "pos (self (migrate_internal e Down migrationName w)) = pos (self w) - int (length ?q)"
    by (simp add: run run_queue_self)
  from range unnamed named pre other all cursor show ?thesis by blast
qed

theorem C2_down_runs_range_witness:
  "0 \<le> pos (self (world_abc 3 False)) \<and>
   migrationPos (self (world_abc 3 False)) Down (Some ''002_b'') = Some 1 \<and>
   \<not> no_name (Some ''002_b'') \<and> \<not> force (self (world_abc 3 False)) \<and>
   sub_sequence (self (world_abc 3 False)) Down 1 = [unit_c, unit_b] \<and>
   map down [unit_c, unit_b] = [None, None] \<and>
   invoked Down (since (world_abc 3 False)
      (migrate_internal db_ok Down (Some ''002_b'') (world_abc 3 False))) = [unit_c, unit_b] \<and>
   pos (self (migrate_internal db_ok Down (Some ''002_b'') (world_abc 3 False))) = 1 \<and>
   migrationPos (self (world_abc 2 False)) Down None = Some 0 \<and> no_name None \<and>
   sub_sequence (self (world_abc 2 False)) Down 0 = [unit_b, unit_a] \<and>
   map down [unit_b, unit_a] = [None, None] \<and>
   invoked Down (since (world_abc 2 False)
      (migrate_internal db_ok Down None (world_abc 2 False))) = [unit_b, unit_a] \<and>
   pos (self (migrate_internal db_ok Down None (world_abc 2 False))) = 0"
proof -
  have a: "0 \<le> pos (self (world_abc 3 False))" by simp
  have b: "migrationPos (self (world_abc 3 False)) Down (Some ''002_b'') = Some 1" by code_simp
  have q: "sub_sequence (self (world_abc 3 False)) Down 1 = [unit_c, unit_b]" by code_simp
  have a': "0 \<le> pos (self (world_abc 2 False))" by simp
  have b': "migrationPos (self (world_abc 2 False)) Down None = Some 0" by code_simp
  have q': "sub_sequence (self (world_abc 2 False)) Down 0 = [unit_b, unit_a]" by code_simp
  have n: "\<not> no_name (Some ''002_b'')" "no_name None" by (simp_all add: no_name_def)
  have f: "\<not> force (self (world_abc 3 False))" by simp
  have u: "map down [unit_c, unit_b] = [None, None]" "map down [unit_b, unit_a] = [None, None]"
    by simp_all
  have i: "invoked Down (since (world_abc 3 False)
      (migrate_internal db_ok Down (Some ''002_b'') (world_abc 3 False))) = [unit_c, unit_b] \<and>
   pos (self (migrate_internal db_ok Down (Some ''002_b'') (world_abc 3 False))) = 1"
    using C2_down_runs_range [OF a b, of db_ok, unfolded q] by simp
  have i': "invoked Down (since (world_abc 2 False)
      (migrate_internal db_ok Down None (world_abc 2 False))) = [unit_b, unit_a] \<and>
   pos (self (migrate_internal db_ok Down None (world_abc 2 False))) = 0"
    using C2_down_runs_range [OF a' b', of db_ok, unfolded q'] by simp
  show ?thesis using a b n f q u i b' q' i' by blast
qed

text \<open>
  Claim C3. When a unit of the queue reports a failure (its operation is invoked, so
  \<^verbatim>\<open>force\<close> is off), the run stops there: the operations invoked are those of the units
  before the first failing one and of that unit, nothing after it; \<^verbatim>\<open>complete\<close> and
  \<^verbatim>\<open>save\<close> are not emitted, the document is not written and keeps its content, the
  completion callback is not called, and the last thing the run does is
  \<^verbatim>\<open>process.exit(1)\<close>.
\<close>

theorem C3_failure_halts:
  assumes "\<not> force (self w)"
    and "migrationPos (self w) d migrationName = Some t"
    and "\<exists>m\<in>set (sub_sequence (self w) d t). operation m d \<noteq> None"
  shows "invoked d (since w (migrate_internal e d migrationName w)) =
           takeWhile (\<lambda>m. operation m d = None) (sub_sequence (self w) d t) @
           take 1 (dropWhile (\<lambda>m. operation m d = None) (sub_sequence (self w) d t)) \<and>
         notified d (since w (migrate_internal e d migrationName w)) =
           invoked d (since w (migrate_internal e d migrationName w)) \<and>
         Emit Complete \<notin> set (since w (migrate_internal e d migrationName w)) \<and>
         Emit Save \<notin> set (since w (migrate_internal e d migrationName w)) \<and>
         writes (since w (migrate_internal e d migrationName w)) = [] \<and>
         doc (migrate_internal e d migrationName w) = doc w \<and>
         callbacks (since w (migrate_internal e d migrationName w)) = [] \<and>
         last (since w (migrate_internal e d migrationName w)) = Exit 1 \<and>
         exited (migrate_internal e d migrationName w)"
proof -
  let ?q = "sub_sequence (self w) d t"
  let ?ok = "\<lambda>m. operation m d = None"
  let ?w1 = "w\<lparr>self := (self w)\<lparr>pos := (if d = Up then pos (self w) + int (length ?q)
                                    else pos (self w) - int (length ?q))\<rparr>\<rparr>"
  from first_failure [OF assms(3)] obtain bad rest x where
    q: "?q = takeWhile ?ok ?q @ bad # rest" and dw: "dropWhile ?ok ?q = bad # rest"
    and x: "operation bad d = Some x" by blast
  have good: "\<forall>m\<in>set (takeWhile ?ok ?q). operation m d = None"
    by (auto dest: set_takeWhileD)
  have nf: "\<not> force (self ?w1)" using assms(1) by simp
  have "migrate_internal e d migrationName w = run_queue e d ?q ?w1"
    by (rule migrate_internal_resolved [OF assms(2)])
  also have "\<dots> = run_queue e d (takeWhile ?ok ?q @ bad # rest) ?w1"
    using q by simp
  also have "\<dots> = process_exit 1 (console_error (toString x)
       (?w1\<lparr>trace := trace ?w1 @ concat (map (\<lambda>m. [Emit (Migration m d), Invoke m d])
          (takeWhile ?ok ?q @ [bad]))\<rparr>))"
    by (rule run_queue_fail [OF nf good x])
  finally have run: "migrate_internal e d migrationName w =
     process_exit 1 (console_error (toString x)
       (?w1\<lparr>trace := trace ?w1 @ concat (map (\<lambda>m. [Emit (Migration m d), Invoke m d])
          (takeWhile ?ok ?q @ [bad]))\<rparr>))" .
  have s: "since w (migrate_internal e d migrationName w) =
     concat (map (\<lambda>m. [Emit (Migration m d), Invoke m d]) (takeWhile ?ok ?q @ [bad])) @
     [Console_error (toString x), Exit 1]"
    unfolding run using since_exited [of ?w1] by simp
  have t1: "take 1 (dropWhile ?ok ?q) = [bad]" by (simp add: dw)
  have c1: "invoked d (since w (migrate_internal e d migrationName w)) =
           takeWhile ?ok ?q @ take 1 (dropWhile ?ok ?q)"
    unfolding s t1 by (simp add: invoked_append invoked_steps del: map_append)
  have c2: "notified d (since w (migrate_internal e d migrationName w)) =
           invoked d (since w (migrate_internal e d migrationName w))"
    unfolding s by (simp add: invoked_append invoked_steps notified_append notified_steps
        del: map_append)
  have c3: "Emit Complete \<notin> set (since w (migrate_internal e d migrationName w)) \<and>
         Emit Save \<notin> set (since w (migrate_internal e d migrationName w))"
    unfolding s using steps_no_complete [of d "takeWhile ?ok ?q @ [bad]"]
    by (simp del: map_append)
  have c4: "writes (since w (migrate_internal e d migrationName w)) = [] \<and>
        callbacks (since w (migrate_internal e d migrationName w)) = []"
    unfolding s by (simp add: writes_append writes_steps callbacks_append callbacks_steps
        del: map_append)
  have c5: "doc (migrate_internal e d migrationName w) = doc w \<and>
        exited (migrate_internal e d migrationName w)"
    unfolding run by (simp add: process_exit_def console_error_def)
  have c6: "last (since w (migrate_internal e d migrationName w)) = Exit 1"
    unfolding s by simp
  from c1 c2 c3 c4 c5 c6 show ?thesis by blast
qed

theorem C3_failure_halts_witness:
  "\<not> force (self (world_axc 0 False)) \<and>
   migrationPos (self (world_axc 0 False)) Up None = Some 3 \<and>
   sub_sequence (self (world_axc 0 False)) Up 3 = [unit_a, unit_x, unit_c] \<and>
   operation unit_a Up = None \<and> operation unit_x Up = Some boom \<and>
   invoked Up (since (world_axc 0 False) (migrate_internal db_ok Up None (world_axc 0 False))) =
     [unit_a, unit_x] \<and>
   writes (since (world_axc 0 False) (migrate_internal db_ok Up None (world_axc 0 False))) = [] \<and>
   doc (migrate_internal db_ok Up None (world_axc 0 False)) = None \<and>
   callbacks (since (world_axc 0 False) (migrate_internal db_ok Up None (world_axc 0 False))) = [] \<and>
   last (since (world_axc 0 False) (migrate_internal db_ok Up None (world_axc 0 False))) = Exit 1 \<and>
   exited (migrate_internal db_ok Up None (world_axc 0 False))"
proof -
  have f: "\<not> force (self (world_axc 0 False))" by simp
  have b: "migrationPos (self (world_axc 0 False)) Up None = Some 3" by code_simp
  have q: "sub_sequence (self (world_axc 0 False)) Up 3 = [unit_a, unit_x, unit_c]" by code_simp
  have o: "operation unit_a Up = None" "operation unit_x Up = Some boom"
    by (simp_all add: operation_def)
  have h: "\<exists>m\<in>set (sub_sequence (self (world_axc 0 False)) Up 3). operation m Up \<noteq> None"
    unfolding q by (simp add: operation_def)
  have i: "invoked Up (since (world_axc 0 False) (migrate_internal db_ok Up None (world_axc 0 False))) =
     [unit_a, unit_x] \<and>
   writes (since (world_axc 0 False) (migrate_internal db_ok Up None (world_axc 0 False))) = [] \<and>
   doc (migrate_internal db_ok Up None (world_axc 0 False)) = None \<and>
   callbacks (since (world_axc 0 False) (migrate_internal db_ok Up None (world_axc 0 False))) = [] \<and>
   last (since (world_axc 0 False) (migrate_internal db_ok Up None (world_axc 0 False))) = Exit 1 \<and>
   exited (migrate_internal db_ok Up None (world_axc 0 False))"
    using C3_failure_halts [OF f b h, of db_ok, unfolded q] by (simp add: operation_def)
  show ?thesis using f b q o i by blast
qed

text \<open>
  Claim C4. The load phase answers a missing record (no document, or a document without
  the \<^verbatim>\<open>migration\<close> field) with the zero record \<^verbatim>\<open>{pos: 0, migrations: []}\<close> and no error,
  and the call goes on from cursor 0. When \<^verbatim>\<open>findOne\<close> fails with an error whose code is
  not \<^verbatim>\<open>ENOENT\<close>, the whole call is the \<^verbatim>\<open>load\<close> event and the completion callback with
  that error: no operation is invoked, no \<^verbatim>\<open>migration\<close> event is emitted, and the set, the
  document and the process are as before.
\<close>

theorem C4_load_phase:
  "rec_pos zero_record = 0 \<and> rec_migrations zero_record = [] \<and>
   (load_find e = None \<and> (doc w = None \<or> doc w = Some None) \<longrightarrow>
      load e fn w = fn None (Some zero_record) (emit Load w) \<and>
      migrateFn e d migrationName w =
        migrate_internal e d migrationName ((emit Load w)\<lparr>self := (self w)\<lparr>pos := 0\<rparr>\<rparr>)) \<and>
   (load_find e = Some x \<and> code x \<noteq> Some ''ENOENT'' \<longrightarrow>
      migrateFn e d migrationName w = callback (Some x) (emit Load w) \<and>
      since w (migrateFn e d migrationName w) = [Emit Load, Callback (Some x)] \<and>
      invoked Up (since w (migrateFn e d migrationName w)) = [] \<and>
      invoked Down (since w (migrateFn e d migrationName w)) = [] \<and>
      notified Up (since w (migrateFn e d migrationName w)) = [] \<and>
      notified Down (since w (migrateFn e d migrationName w)) = [] \<and>
      self (migrateFn e d migrationName w) = self w \<and>
      doc (migrateFn e d migrationName w) = doc w \<and>
      exited (migrateFn e d migrationName w) = exited w)"
proof -
  have z: "rec_pos zero_record = 0 \<and> rec_migrations zero_record = []"
    by (simp add: zero_record_def)
  have missing: "load e fn w = fn None (Some zero_record) (emit Load w) \<and>
      migrateFn e d migrationName w =
        migrate_internal e d migrationName ((emit Load w)\<lparr>self := (self w)\<lparr>pos := 0\<rparr>\<rparr>)"
    if "load_find e = None \<and> (doc w = None \<or> doc w = Some None)"
  proof -
    have "load e fn w = fn None (Some zero_record) (emit Load w)"
      using that by (auto simp: load_def connect_def emit_def)
    moreover have "migrateFn e d migrationName w =
        migrate_internal e d migrationName ((emit Load w)\<lparr>self := (self w)\<lparr>pos := 0\<rparr>\<rparr>)"
      using that migrateFn_loaded [of e d migrationName w] by auto
    ultimately show ?thesis by simp
  qed
  have failed: "migrateFn e d migrationName w = callback (Some x) (emit Load w) \<and>
      since w (migrateFn e d migrationName w) = [Emit Load, Callback (Some x)] \<and>
      invoked Up (since w (migrateFn e d migrationName w)) = [] \<and>
      invoked Down (since w (migrateFn e d migrationName w)) = [] \<and>
      notified Up (since w (migrateFn e d migrationName w)) = [] \<and>
      notified Down (since w (migrateFn e d migrationName w)) = [] \<and>
      self (migrateFn e d migrationName w) = self w \<and>
      doc (migrateFn e d migrationName w) = doc w \<and>
      exited (migrateFn e d migrationName w) = exited w"
    if "load_find e = Some x \<and> code x \<noteq> Some ''ENOENT''"
  proof -
    have run: "migrateFn e d migrationName w = callback (Some x) (emit Load w)"
      using that by (simp add: migrateFn_load_error)
    show ?thesis unfolding run by (simp add: since_def callback_def emit_def)
  qed
  from z missing failed show ?thesis by blast
qed

theorem C4_load_phase_witness:
  "load_find db_ok = None \<and> doc (world_abc 2 False) = None \<and>
   load db_ok (\<lambda>err obj. callback err) (world_abc 2 False) =
     callback None (emit Load (world_abc 2 False)) \<and>
   migrateFn db_ok Up None (world_abc 2 False) =
     migrate_internal db_ok Up None (emit Load (world_abc 0 False)) \<and>
   load_find (db_ok\<lparr>load_find := Some boom\<rparr>) = Some boom \<and> code boom \<noteq> Some ''ENOENT'' \<and>
   since (world_abc 2 False)
     (migrateFn (db_ok\<lparr>load_find := Some boom\<rparr>) Up None (world_abc 2 False)) =
     [Emit Load, Callback (Some boom)] \<and>
   self (migrateFn (db_ok\<lparr>load_find := Some boom\<rparr>) Up None (world_abc 2 False)) =
     self (world_abc 2 False)"
proof -
  have l: "load_find db_ok = None" "doc (world_abc 2 False) = None" by simp_all
  have l': "load_find (db_ok\<lparr>load_find := Some boom\<rparr>) = Some boom"
    "code boom \<noteq> Some ''ENOENT''"
    by simp_all
  note r = C4_load_phase [where e = db_ok and w = "world_abc 2 False"
      and fn = "\<lambda>err obj. callback err" and d = Up and migrationName = None]
  note r' = C4_load_phase [where e = "db_ok\<lparr>load_find := Some boom\<rparr>"
      and w = "world_abc 2 False" and x = boom and d = Up and migrationName = None]
  have i1: "load db_ok (\<lambda>err obj. callback err) (world_abc 2 False) =
      callback None (emit Load (world_abc 2 False))"
    using r l by simp
  have i2: "migrateFn db_ok Up None (world_abc 2 False) =
      migrate_internal db_ok Up None (emit Load (world_abc 0 False))"
    using r l by (simp add: emit_def)
  have i3: "since (world_abc 2 False)
     (migrateFn (db_ok\<lparr>load_find := Some boom\<rparr>) Up None (world_abc 2 False)) =
     [Emit Load, Callback (Some boom)] \<and>
   self (migrateFn (db_ok\<lparr>load_find := Some boom\<rparr>) Up None (world_abc 2 False)) =
     self (world_abc 2 False)"
    using r' [THEN conjunct2, THEN conjunct2, THEN conjunct2] l' by blast
  show ?thesis using l l' i1 i2 i3 by blast
qed

text \<open>
  Claim C5. \<open>0 \<le> pos \<le> length migrations\<close> is kept by \<^verbatim>\<open>_migrate\<close> in both directions,
  whatever the outcome; it is kept by every whole call (\<^verbatim>\<open>up\<close> or \<^verbatim>\<open>down\<close>) when it holds
  on entry for the cursor in memory and for the stored cursor the call loads, and it then
  holds for the stored cursor again. Over a sequence of \<^verbatim>\<open>up\<close> calls that all end well, the
  cursor after each call is at least the cursor after the call before and never exceeds
  the length of the list (and it never falls below the starting cursor when the stored
  record agrees with the set at the start).
\<close>

theorem C5_cursor_invariant:
  "(cursor_ok (self w) \<longrightarrow>
      cursor_ok (self (migrate_internal e d migrationName w)) \<and>
      migrations (self (migrate_internal e d migrationName w)) = migrations (self w)) \<and>
   (cursor_ok (self w) \<and> stored_ok w \<longrightarrow>
      cursor_ok (self (migrateFn e d migrationName w)) \<and>
      stored_ok (migrateFn e d migrationName w) \<and>
      migrations (self (migrateFn e d migrationName w)) = migrations (self w)) \<and>
   (cursor_ok (self w) \<and> stored_ok w \<and> (\<forall>w'\<in>set (up_calls cs w). successful w') \<longrightarrow>
      sorted (map (\<lambda>w'. pos (self w')) (up_calls cs w)) \<and>
      (\<forall>w'\<in>set (up_calls cs w).
         0 \<le> pos (self w') \<and> pos (self w') \<le> int (length (migrations (self w)))) \<and>
      (doc w = Some (Some (snapshot (self w))) \<longrightarrow>
         sorted (pos (self w) # map (\<lambda>w'. pos (self w')) (up_calls cs w))))"
proof -
  have a: "cursor_ok (self (migrate_internal e d migrationName w)) \<and>
      migrations (self (migrate_internal e d migrationName w)) = migrations (self w)"
    if "cursor_ok (self w)"
    by (rule migrate_internal_cursor_ok [OF that])
  have b: "cursor_ok (self (migrateFn e d migrationName w)) \<and>
      stored_ok (migrateFn e d migrationName w) \<and>
      migrations (self (migrateFn e d migrationName w)) = migrations (self w)"
    if "cursor_ok (self w) \<and> stored_ok w"
    using that migrateFn_invariant by blast
  have c: "sorted (map (\<lambda>w'. pos (self w')) (up_calls cs w)) \<and>
      (\<forall>w'\<in>set (up_calls cs w).
         0 \<le> pos (self w') \<and> pos (self w') \<le> int (length (migrations (self w)))) \<and>
      (doc w = Some (Some (snapshot (self w))) \<longrightarrow>
         sorted (pos (self w) # map (\<lambda>w'. pos (self w')) (up_calls cs w)))"
    if h: "cursor_ok (self w) \<and> stored_ok w \<and> (\<forall>w'\<in>set (up_calls cs w). successful w')"
  proof -
    from h have h1: "cursor_ok (self w)" and h2: "stored_ok w"
      and h3: "\<forall>w'\<in>set (up_calls cs w). successful w'" by simp_all
    from up_calls_monotone [OF h1 h2 h3] show ?thesis
      by (auto simp: cursor_ok_def)
  qed
  from a b c show ?thesis by blast
qed

theorem C5_cursor_invariant_witness:
  "cursor_ok (self (world_abc 1 False)) \<and> stored_ok (world_abc 1 False) \<and>
   cursor_ok (self (migrate_internal db_ok Down None (world_abc 1 False))) \<and>
   cursor_ok (self (migrateFn db_ok Up None (world_abc 1 False))) \<and>
   stored_ok (migrateFn db_ok Up None (world_abc 1 False)) \<and>
   list_all successful
     (up_calls [(db_ok, Some ''001_a''), (db_ok, Some ''002_b''), (db_ok, None)]
        (world_abc 1 False)) \<and>
   map (\<lambda>w'. pos (self w'))
     (up_calls [(db_ok, Some ''001_a''), (db_ok, Some ''002_b''), (db_ok, None)]
        (world_abc 1 False)) = [1, 2, 3] \<and>
   sorted (map (\<lambda>w'. pos (self w'))
     (up_calls [(db_ok, Some ''001_a''), (db_ok, Some ''002_b''), (db_ok, None)]
        (world_abc 1 False))) \<and>
   list_all (\<lambda>w'. 0 \<le> pos (self w') \<and> pos (self w') \<le> 3)
     (up_calls [(db_ok, Some ''001_a''), (db_ok, Some ''002_b''), (db_ok, None)]
        (world_abc 1 False)) \<and>
   cursor_ok (self ((world_abc 1 False)\<lparr>doc := Some (Some (snapshot (self (world_abc 1 False))))\<rparr>)) \<and>
   stored_ok ((world_abc 1 False)\<lparr>doc := Some (Some (snapshot (self (world_abc 1 False))))\<rparr>) \<and>
   list_all successful
     (up_calls [(db_ok, Some ''001_a''), (db_ok, None)]
        ((world_abc 1 False)\<lparr>doc := Some (Some (snapshot (self (world_abc 1 False))))\<rparr>)) \<and>
   map (\<lambda>w'. pos (self w'))
     (up_calls [(db_ok, Some ''001_a''), (db_ok, None)]
        ((world_abc 1 False)\<lparr>doc := Some (Some (snapshot (self (world_abc 1 False))))\<rparr>)) =
     [1, 3] \<and>
   sorted (pos (self ((world_abc 1 False)\<lparr>doc := Some (Some (snapshot (self (world_abc 1 False))))\<rparr>)) #
     map (\<lambda>w'. pos (self w'))
       (up_calls [(db_ok, Some ''001_a''), (db_ok, None)]
          ((world_abc 1 False)\<lparr>doc := Some (Some (snapshot (self (world_abc 1 False))))\<rparr>)))"
proof -
  let ?cs = "[(db_ok, Some ''001_a''), (db_ok, Some ''002_b''), (db_ok, None)]"
  let ?cs' = "[(db_ok, Some ''001_a''), (db_ok, None)]"
  let ?v = "(world_abc 1 False)\<lparr>doc := Some (Some (snapshot (self (world_abc 1 False))))\<rparr>"
  have c: "cursor_ok (self (world_abc 1 False))" by (simp add: cursor_ok_def)
  have s: "stored_ok (world_abc 1 False)" by (simp add: stored_ok_def)
  have ok: "list_all successful (up_calls ?cs (world_abc 1 False))"
    by (simp add: run_eval successful_def)
  then have ok': "\<forall>w'\<in>set (up_calls ?cs (world_abc 1 False)). successful w'"
    by (simp add: list_all_iff)
  have v: "map (\<lambda>w'. pos (self w')) (up_calls ?cs (world_abc 1 False)) = [1, 2, 3]"
    by (simp add: run_eval)
  note r1 = C5_cursor_invariant [where w = "world_abc 1 False" and e = db_ok and d = Down
      and migrationName = None and cs = ?cs]
  note r2 = C5_cursor_invariant [where w = "world_abc 1 False" and e = db_ok and d = Up
      and migrationName = None and cs = ?cs]
  have i1: "cursor_ok (self (migrate_internal db_ok Down None (world_abc 1 False)))"
    using r1 c by blast
  have i2: "cursor_ok (self (migrateFn db_ok Up None (world_abc 1 False))) \<and>
     stored_ok (migrateFn db_ok Up None (world_abc 1 False))"
    using r2 c s by blast
  have i3: "sorted (map (\<lambda>w'. pos (self w')) (up_calls ?cs (world_abc 1 False))) \<and>
     (\<forall>w'\<in>set (up_calls ?cs (world_abc 1 False)).
         0 \<le> pos (self w') \<and>
         pos (self w') \<le> int (length (migrations (self (world_abc 1 False)))))"
    using r2 c s ok' by blast
  then have i4: "list_all (\<lambda>w'. 0 \<le> pos (self w') \<and> pos (self w') \<le> 3)
     (up_calls ?cs (world_abc 1 False))"
    by (simp add: list_all_iff)
  have c': "cursor_ok (self ?v)" by (simp add: cursor_ok_def)
  have s': "stored_ok ?v" by (simp add: stored_ok_def snapshot_def)
  have y: "doc ?v = Some (Some (snapshot (self ?v)))" by simp
  have k: "list_all successful (up_calls ?cs' ?v)"
    by (simp add: run_eval successful_def)
  then have k': "\<forall>w'\<in>set (up_calls ?cs' ?v). successful w'"
    by (simp add: list_all_iff)
  have v': "map (\<lambda>w'. pos (self w')) (up_calls ?cs' ?v) = [1, 3]"
    by (simp add: run_eval)
  note r3 = C5_cursor_invariant [where w = ?v and e = db_ok and d = Up
      and migrationName = None and cs = ?cs']
  have i5: "sorted (pos (self ?v) # map (\<lambda>w'. pos (self w')) (up_calls ?cs' ?v))"
    using r3 c' s' k' y by blast
  show ?thesis using c s i1 i2 ok v i3 i4 c' s' k v' i5 by blast
qed

text \<open>
  Claim C6. A call that gives a name no unit has as its title prints the diagnostic and
  exits the process with status 1: no operation is invoked, no event of the run is
  emitted, the completion callback is not called, and \<^verbatim>\<open>_migrate\<close> leaves the set (its
  cursor included) and the stored document as they were. For the whole \<^verbatim>\<open>migrate\<close> call
  whose load phase passes, the trace is the \<^verbatim>\<open>load\<close> event, the diagnostic and the exit,
  the stored document is untouched, and the set is as the load phase left it: the cursor
  is the one loaded (the one in memory after an \<^verbatim>\<open>ENOENT\<close>), nothing else has changed.
\<close>

theorem C6_unknown_target_fatal:
  assumes "\<not> no_name migrationName"
    and "the migrationName \<notin> title ` set (migrations (self w))"
  shows "migrate_internal e d migrationName w =
           process_exit 1
             (console_error (''Could not find migration: '' @ the migrationName) w) \<and>
         since w (migrate_internal e d migrationName w) =
           [Console_error (''Could not find migration: '' @ the migrationName), Exit 1] \<and>
         exited (migrate_internal e d migrationName w) \<and>
         self (migrate_internal e d migrationName w) = self w \<and>
         doc (migrate_internal e d migrationName w) = doc w \<and>
         (load_find e = None \<or> (\<exists>x. load_find e = Some x \<and> code x = Some ''ENOENT'') \<longrightarrow>
            since w (migrateFn e d migrationName w) =
              [Emit Load, Console_error (''Could not find migration: '' @ the migrationName),
               Exit 1] \<and>
            exited (migrateFn e d migrationName w) \<and>
            doc (migrateFn e d migrationName w) = doc w \<and>
            self (migrateFn e d migrationName w) =
              (self w)\<lparr>pos :=
                 (case load_find e of
                    None \<Rightarrow> (case doc w of Some (Some r) \<Rightarrow> rec_pos r | _ \<Rightarrow> 0)
                  | Some x \<Rightarrow> pos (self w))\<rparr>)"
proof -
  let ?msg = "''Could not find migration: '' @ the migrationName"
  let ?p = "case load_find e of
              None \<Rightarrow> (case doc w of Some (Some r) \<Rightarrow> rec_pos r | _ \<Rightarrow> 0)
            | Some x \<Rightarrow> pos (self w)"
  have none: "migrationPos (self w1) d migrationName = None"
    if "migrations (self w1) = migrations (self w)" for w1
    using assms that by (simp add: migrationPos_None)
  have stop: "migrate_internal e d migrationName w1 = process_exit 1 (console_error ?msg w1)"
    if "migrations (self w1) = migrations (self w)" for w1
    using migrate_internal_unresolved [OF none [OF that]] .
  have c1: "migrate_internal e d migrationName w = process_exit 1 (console_error ?msg w)"
    by (simp add: stop)
  have c2: "since w (migrate_internal e d migrationName w) = [Console_error ?msg, Exit 1]"
    unfolding c1 by (simp add: since_def process_exit_def console_error_def)
  have c3: "exited (migrate_internal e d migrationName w) \<and>
         self (migrate_internal e d migrationName w) = self w \<and>
         doc (migrate_internal e d migrationName w) = doc w"
    unfolding c1 by (simp add: process_exit_def console_error_def)
  have c4: "since w (migrateFn e d migrationName w) = [Emit Load, Console_error ?msg, Exit 1] \<and>
            exited (migrateFn e d migrationName w) \<and>
            doc (migrateFn e d migrationName w) = doc w \<and>
            self (migrateFn e d migrationName w) = (self w)\<lparr>pos := ?p\<rparr>"
    if l: "load_find e = None \<or> (\<exists>x. load_find e = Some x \<and> code x = Some ''ENOENT'')"
  proof -
    from l obtain w1 where run: "migrateFn e d migrationName w = migrate_internal e d migrationName w1"
      and ms: "migrations (self w1) = migrations (self w)"
      and tr: "trace w1 = trace w @ [Emit Load]" and dc: "doc w1 = doc w"
      and sf: "self w1 = (self w)\<lparr>pos := ?p\<rparr>"
      using migrateFn_loaded [of e d migrationName w] migrateFn_enoent [of e _ d migrationName w]
      by (auto simp: emit_def)
    show ?thesis
      unfolding run stop [OF ms]
      by (simp add: since_def process_exit_def console_error_def tr dc sf)
  qed
  from c1 c2 c3 c4 show ?thesis by blast
qed

theorem C6_unknown_target_fatal_witness:
  "\<not> no_name (Some ''004_d'') \<and>
   title ` set (migrations (self (world_abc 1 False))) = {''001_a'', ''002_b'', ''003_c''} \<and>
   load_find db_ok = None \<and>
   since (world_abc 1 False) (migrate_internal db_ok Up (Some ''004_d'') (world_abc 1 False)) =
     [Console_error ''Could not find migration: 004_d'', Exit 1] \<and>
   exited (migrate_internal db_ok Up (Some ''004_d'') (world_abc 1 False)) \<and>
   self (migrate_internal db_ok Up (Some ''004_d'') (world_abc 1 False)) =
     self (world_abc 1 False) \<and>
   doc (migrate_internal db_ok Up (Some ''004_d'') (world_abc 1 False)) = None \<and>
   since (world_abc 1 False) (migrateFn db_ok Up (Some ''004_d'') (world_abc 1 False)) =
     [Emit Load, Console_error ''Could not find migration: 004_d'', Exit 1] \<and>
   exited (migrateFn db_ok Up (Some ''004_d'') (world_abc 1 False)) \<and>
   doc (migrateFn db_ok Up (Some ''004_d'') (world_abc 1 False)) = None \<and>
   pos (self (migrateFn db_ok Up (Some ''004_d'') (world_abc 1 False))) = 0"
proof -
  have n: "\<not> no_name (Some ''004_d'')" by (simp add: no_name_def)
  have t: "title ` set (migrations (self (world_abc 1 False))) = {''001_a'', ''002_b'', ''003_c''}"
    by simp
  have m: "the (Some ''004_d'') \<notin> title ` set (migrations (self (world_abc 1 False)))"
    by simp
  have l: "load_find db_ok = None" by simp
  have i: "since (world_abc 1 False) (migrate_internal db_ok Up (Some ''004_d'') (world_abc 1 False)) =
     [Console_error ''Could not find migration: 004_d'', Exit 1] \<and>
   exited (migrate_internal db_ok Up (Some ''004_d'') (world_abc 1 False)) \<and>
   self (migrate_internal db_ok Up (Some ''004_d'') (world_abc 1 False)) =
     self (world_abc 1 False) \<and>
   doc (migrate_internal db_ok Up (Some ''004_d'') (world_abc 1 False)) = None \<and>
   since (world_abc 1 False) (migrateFn db_ok Up (Some ''004_d'') (world_abc 1 False)) =
     [Emit Load, Console_error ''Could not find migration: 004_d'', Exit 1] \<and>
   exited (migrateFn db_ok Up (Some ''004_d'') (world_abc 1 False)) \<and>
   doc (migrateFn db_ok Up (Some ''004_d'') (world_abc 1 False)) = None \<and>
   pos (self (migrateFn db_ok Up (Some ''004_d'') (world_abc 1 False))) = 0"
    using C6_unknown_target_fatal [OF n m, of db_ok Up, THEN conjunct2] by simp
  show ?thesis using n t l i by blast
qed

text \<open>
  Claim C7. With \<^verbatim>\<open>force\<close> set, an \<^verbatim>\<open>up\<close> call invokes no operation of any unit, emits one
  \<^verbatim>\<open>migration\<close> event for each unit of the computed queue, in its order, and advances the
  cursor by the length of the queue: to the position after the target (or the end of the
  list) when it starts at or before it. Where every unit of the queue would succeed, the
  cursor and the stored document end as in the run without \<^verbatim>\<open>force\<close>, and the units
  announced are the units that run invokes.
\<close>

theorem C7_force_skips_operations:
  assumes "force (self w)"
    and "migrationPos (self w) Up migrationName = Some t"
  shows "invoked Up (since w (migrate_internal e Up migrationName w)) = [] \<and>
         invoked Down (since w (migrate_internal e Up migrationName w)) = [] \<and>
         notified Up (since w (migrate_internal e Up migrationName w)) =
           sub_sequence (self w) Up t \<and>
         pos (self (migrate_internal e Up migrationName w)) =
           pos (self w) + int (length (sub_sequence (self w) Up t)) \<and>
         (cursor_ok (self w) \<and> pos (self w) \<le> t + 1 \<longrightarrow>
            pos (self (migrate_internal e Up migrationName w)) =
              min (t + 1) (int (length (migrations (self w))))) \<and>
         ((\<forall>m\<in>set (sub_sequence (self w) Up t). up m = None) \<longrightarrow>
            pos (self (migrate_internal e Up migrationName w)) =
              pos (self (migrate_internal e Up migrationName (w\<lparr>self := (self w)\<lparr>force := False\<rparr>\<rparr>))) \<and>
            doc (migrate_internal e Up migrationName w) =
              doc (migrate_internal e Up migrationName (w\<lparr>self := (self w)\<lparr>force := False\<rparr>\<rparr>)) \<and>
            notified Up (since w (migrate_internal e Up migrationName w)) =
              invoked Up (since w
                (migrate_internal e Up migrationName (w\<lparr>self := (self w)\<lparr>force := False\<rparr>\<rparr>))))"
proof -
  let ?q = "sub_sequence (self w) Up t"
  let ?w1 = "w\<lparr>self := (self w)\<lparr>pos := pos (self w) + int (length ?q)\<rparr>\<rparr>"
  let ?n = "w\<lparr>self := (self w)\<lparr>force := False\<rparr>\<rparr>"
  let ?n1 = "?n\<lparr>self := (self ?n)\<lparr>pos := pos (self ?n) + int (length ?q)\<rparr>\<rparr>"
  have f1: "force (self ?w1)" using assms(1) by simp
  have run: "migrate_internal e Up migrationName w =
     save e callback (emit Complete (?w1\<lparr>trace := trace ?w1 @ map (\<lambda>m. Emit (Migration m Up)) ?q\<rparr>))"
    using migrate_internal_resolved [OF assms(2), of e] run_queue_force [OF f1, of e Up ?q]
    by simp
  have s: "since w (migrate_internal e Up migrationName w) =
     map (\<lambda>m. Emit (Migration m Up)) ?q @ Emit Complete # save_actions e (self ?w1)"
    unfolding run using since_finished [of ?w1 e "map (\<lambda>m. Emit (Migration m Up)) ?q"] by simp
  have c1: "invoked Up (since w (migrate_internal e Up migrationName w)) = [] \<and>
         invoked Down (since w (migrate_internal e Up migrationName w)) = [] \<and>
         notified Up (since w (migrate_internal e Up migrationName w)) = ?q"
    unfolding s
    by (simp add: invoked_append invoked_skips invoked_save_actions notified_append
        notified_skips notified_save_actions)
  have c2: "pos (self (migrate_internal e Up migrationName w)) = pos (self w) + int (length ?q)"
    unfolding run by (simp add: self_finished)
  have c3: "pos (self (migrate_internal e Up migrationName w)) =
              min (t + 1) (int (length (migrations (self w))))"
    if "cursor_ok (self w) \<and> pos (self w) \<le> t + 1"
  proof -
    from migrationPos_nonneg [OF assms(2)] have t0: "0 \<le> t + 1" by simp
    have "?q = take (nat (t + 1 - pos (self w))) (drop (nat (pos (self w))) (migrations (self w)))"
      using slice_up [of "pos (self w)" t "migrations (self w)"] that t0
      by (simp add: sub_sequence_def cursor_ok_def)
    then have "int (length ?q) = min (t + 1) (int (length (migrations (self w)))) - pos (self w)"
      using that by (auto simp: min_def cursor_ok_def)
    with c2 show ?thesis by simp
  qed
  have c4: "pos (self (migrate_internal e Up migrationName w)) =
              pos (self (migrate_internal e Up migrationName ?n)) \<and>
            doc (migrate_internal e Up migrationName w) =
              doc (migrate_internal e Up migrationName ?n) \<and>
            notified Up (since w (migrate_internal e Up migrationName w)) =
              invoked Up (since w (migrate_internal e Up migrationName ?n))"
    if ok: "\<forall>m\<in>set ?q. up m = None"
  proof -
    have mp: "migrationPos (self ?n) Up migrationName = Some t" using assms(2) by simp
    have nf: "\<not> force (self ?n1)" by simp
    have ok': "\<forall>m\<in>set ?q. operation m Up = None" using ok by (simp add: operation_def)
    have nrun: "migrate_internal e Up migrationName ?n =
       save e callback (emit Complete
         (?n1\<lparr>trace := trace ?n1 @ concat (map (\<lambda>m. [Emit (Migration m Up), Invoke m Up]) ?q)\<rparr>))"
      using migrate_internal_resolved [OF mp, of e] run_queue_ok [OF nf ok', of e] by simp
    have ns: "since w (migrate_internal e Up migrationName ?n) =
       concat (map (\<lambda>m. [Emit (Migration m Up), Invoke m Up]) ?q) @
       Emit Complete # save_actions e (self ?n1)"
      unfolding nrun
      using since_finished [of ?n1 e "concat (map (\<lambda>m. [Emit (Migration m Up), Invoke m Up]) ?q)"]
      by simp
    have p: "pos (self (migrate_internal e Up migrationName ?n)) = pos (self w) + int (length ?q)"
      unfolding nrun by (simp add: self_finished)
    have d: "doc (migrate_internal e Up migrationName w) =
              doc (migrate_internal e Up migrationName ?n)"
      unfolding run nrun by (simp add: doc_finished snapshot_def)
    have i: "invoked Up (since w (migrate_internal e Up migrationName ?n)) = ?q"
      unfolding ns by (simp add: invoked_append invoked_steps invoked_save_actions)
    from c1 c2 p d i show ?thesis by simp
  qed
  from c1 c2 c3 c4 show ?thesis by blast
qed

theorem C7_force_skips_operations_witness:
  "force (self (world_abc 1 True)) \<and>
   migrationPos (self (world_abc 1 True)) Up (Some ''002_b'') = Some 1 \<and>
   sub_sequence (self (world_abc 1 True)) Up 1 = [unit_b] \<and> up unit_b = None \<and>
   cursor_ok (self (world_abc 1 True)) \<and> pos (self (world_abc 1 True)) \<le> 1 + 1 \<and>
   invoked Up (since (world_abc 1 True)
     (migrate_internal db_ok Up (Some ''002_b'') (world_abc 1 True))) = [] \<and>
   notified Up (since (world_abc 1 True)
     (migrate_internal db_ok Up (Some ''002_b'') (world_abc 1 True))) = [unit_b] \<and>
   pos (self (migrate_internal db_ok Up (Some ''002_b'') (world_abc 1 True))) = 2 \<and>
   pos (self (migrate_internal db_ok Up (Some ''002_b'') (world_abc 1 False))) = 2 \<and>
   invoked Up (since (world_abc 1 True)
     (migrate_internal db_ok Up (Some ''002_b'') (world_abc 1 False))) = [unit_b]"
proof -
  have f: "force (self (world_abc 1 True))" by simp
  have b: "migrationPos (self (world_abc 1 True)) Up (Some ''002_b'') = Some 1" by code_simp
  have q: "sub_sequence (self (world_abc 1 True)) Up 1 = [unit_b]" by code_simp
  have u: "up unit_b = None" by simp
  have c: "cursor_ok (self (world_abc 1 True))" "pos (self (world_abc 1 True)) \<le> 1 + 1"
    by (simp_all add: cursor_ok_def)
  have i: "invoked Up (since (world_abc 1 True)
     (migrate_internal db_ok Up (Some ''002_b'') (world_abc 1 True))) = [] \<and>
   notified Up (since (world_abc 1 True)
     (migrate_internal db_ok Up (Some ''002_b'') (world_abc 1 True))) = [unit_b] \<and>
   pos (self (migrate_internal db_ok Up (Some ''002_b'') (world_abc 1 True))) = 2 \<and>
   pos (self (migrate_internal db_ok Up (Some ''002_b'') (world_abc 1 False))) = 2 \<and>
   invoked Up (since (world_abc 1 True)
     (migrate_internal db_ok Up (Some ''002_b'') (world_abc 1 False))) = [unit_b]"
    using C7_force_skips_operations [OF f b, of db_ok, unfolded q] by (auto simp: cursor_ok_def)
  show ?thesis using f b q u c i by blast
qed

text \<open>
  Claim C8. From a stored cursor 0, with every operation succeeding and the database
  answering, \<^verbatim>\<open>up\<close> without a name invokes the \<^verbatim>\<open>up\<close> operation of every unit in list
  order and leaves the cursor at the length of the list; \<^verbatim>\<open>down\<close> without a name then
  invokes the \<^verbatim>\<open>down\<close> operation of every unit once, in the reverse of that order, and
  leaves the cursor at 0.
\<close>

theorem C8_up_then_down:
  assumes "\<not> force (self w)"
    and "\<forall>m\<in>set (migrations (self w)). up m = None \<and> down m = None"
    and "(case doc w of Some (Some r) \<Rightarrow> rec_pos r | _ \<Rightarrow> 0) = 0"
    and "load_find e1 = None \<and> save_find e1 = None \<and> save_write e1 = None"
    and "load_find e2 = None"
  shows "pos (self (set_up e1 None w)) = int (length (migrations (self w))) \<and>
         invoked Up (since w (set_up e1 None w)) = migrations (self w) \<and>
         invoked Down (since w (set_up e1 None w)) = [] \<and>
         pos (self (set_down e2 None (set_up e1 None w))) = 0 \<and>
         invoked Down (since (set_up e1 None w) (set_down e2 None (set_up e1 None w))) =
           rev (migrations (self w)) \<and>
         invoked Up (since (set_up e1 None w) (set_down e2 None (set_up e1 None w))) = [] \<and>
         invoked Down (since (set_up e1 None w) (set_down e2 None (set_up e1 None w))) =
           rev (invoked Up (since w (set_up e1 None w)))"
proof -
  let ?ms = "migrations (self w)"
  let ?len = "int (length ?ms)"
  let ?w0 = "(emit Load w)\<lparr>self := (self w)\<lparr>pos := 0\<rparr>\<rparr>"
  let ?w1 = "set_up e1 None w"
  have nn: "no_name None" by (simp add: no_name_def)
  \<comment> \<open>the way up\<close>
  have up_run: "?w1 = migrate_internal e1 Up None ?w0"
    using migrateFn_loaded [of e1 Up None w] assms(3,4) by (simp add: set_up_def)
  have tr0: "trace ?w0 = trace w @ [Emit Load]" by (simp add: emit_def)
  have mp0: "migrationPos (self ?w0) Up None = Some ?len"
    by (simp add: migrationPos_no_name [OF nn] emit_def)
  have q0: "sub_sequence (self ?w0) Up ?len = ?ms"
    using slice_up [of 0 ?len ?ms] by (simp add: sub_sequence_def emit_def)
  have nf0: "\<not> force (self ?w0)" using assms(1) by (simp add: emit_def)
  have ok0: "\<forall>m\<in>set (sub_sequence (self ?w0) Up ?len). operation m Up = None"
    unfolding q0 using assms(2) by (simp add: operation_def)
  note obs0 = migrate_internal_completed_obs [OF nf0 mp0 ok0, where e = e1, unfolded q0]
  have self1: "self ?w1 = (self w)\<lparr>pos := ?len\<rparr>"
    unfolding up_run using mp0 q0 by (simp add: migrate_internal_self emit_def)
  have doc1: "doc ?w1 = Some (Some (snapshot ((self w)\<lparr>pos := ?len\<rparr>)))"
    using obs0(2) assms(4) self1 by (simp add: up_run)
  have inv1: "invoked d' (since w ?w1) = (if d' = Up then ?ms else [])" for d'
    unfolding up_run since_after_load [OF tr0] using obs0(1) [of d'] by simp
  \<comment> \<open>the way down\<close>
  let ?v0 = "(emit Load ?w1)\<lparr>self := (self ?w1)\<lparr>pos := ?len\<rparr>\<rparr>"
  let ?w2 = "set_down e2 None ?w1"
  have down_run: "?w2 = migrate_internal e2 Down None ?v0"
    using migrateFn_loaded [of e2 Down None ?w1] assms(5) doc1
    by (simp add: set_down_def snapshot_def)
  have trv: "trace ?v0 = trace ?w1 @ [Emit Load]" by (simp add: emit_def)
  have selfv: "self ?v0 = (self w)\<lparr>pos := ?len\<rparr>" by (simp add: self1)
  have mpv: "migrationPos (self ?v0) Down None = Some 0"
    by (simp add: migrationPos_no_name [OF nn])
  have qv: "sub_sequence (self ?v0) Down 0 = rev ?ms"
    unfolding selfv using slice_down [of ?len 0 ?ms] by (simp add: sub_sequence_def)
  have nfv: "\<not> force (self ?v0)" unfolding selfv using assms(1) by simp
  have okv: "\<forall>m\<in>set (sub_sequence (self ?v0) Down 0). operation m Down = None"
    unfolding qv using assms(2) by (simp add: operation_def)
  note obsv = migrate_internal_completed_obs [OF nfv mpv okv, where e = e2, unfolded qv]
  have self2: "pos (self ?w2) = 0"
    unfolding down_run using mpv qv selfv by (simp add: migrate_internal_self)
  have inv2: "invoked d' (since ?w1 ?w2) = (if d' = Down then rev ?ms else [])" for d'
    unfolding down_run since_after_load [OF trv] using obsv(1) [of d'] by simp
  from self1 inv1 [of Up] inv1 [of Down] self2 inv2 [of Down] inv2 [of Up]
  show ?thesis by simp
qed

theorem C8_up_then_down_witness:
  "\<not> force (self (world_abc 0 False)) \<and>
   map up (migrations (self (world_abc 0 False))) = [None, None, None] \<and>
   map down (migrations (self (world_abc 0 False))) = [None, None, None] \<and>
   doc (world_abc 0 False) = None \<and>
   load_find db_ok = None \<and> save_find db_ok = None \<and> save_write db_ok = None \<and>
   pos (self (set_up db_ok None (world_abc 0 False))) = 3 \<and>
   invoked Up (since (world_abc 0 False) (set_up db_ok None (world_abc 0 False))) =
     [unit_a, unit_b, unit_c] \<and>
   pos (self (set_down db_ok None (set_up db_ok None (world_abc 0 False)))) = 0 \<and>
   invoked Down (since (set_up db_ok None (world_abc 0 False))
     (set_down db_ok None (set_up db_ok None (world_abc 0 False)))) = [unit_c, unit_b, unit_a]"
proof -
  have f: "\<not> force (self (world_abc 0 False))" by simp
  have u: "map up (migrations (self (world_abc 0 False))) = [None, None, None]"
    "map down (migrations (self (world_abc 0 False))) = [None, None, None]"
    by simp_all
  have ok: "\<forall>m\<in>set (migrations (self (world_abc 0 False))). up m = None \<and> down m = None"
    by simp
  have d: "doc (world_abc 0 False) = None" by simp
  have st: "(case doc (world_abc 0 False) of Some (Some r) \<Rightarrow> rec_pos r | _ \<Rightarrow> 0) = 0"
    by simp
  have db: "load_find db_ok = None \<and> save_find db_ok = None \<and> save_write db_ok = None"
    by simp
  have db2: "load_find db_ok = None" by simp
  have i: "pos (self (set_up db_ok None (world_abc 0 False))) = 3 \<and>
   invoked Up (since (world_abc 0 False) (set_up db_ok None (world_abc 0 False))) =
     [unit_a, unit_b, unit_c] \<and>
   pos (self (set_down db_ok None (set_up db_ok None (world_abc 0 False)))) = 0 \<and>
   invoked Down (since (set_up db_ok None (world_abc 0 False))
     (set_down db_ok None (set_up db_ok None (world_abc 0 False)))) = [unit_c, unit_b, unit_a]"
    using C8_up_then_down [OF f ok st db db2] by simp
  show ?thesis using f u d db i by blast
qed

text \<open>
  Claim C9. When the load phase yields an error whose code is \<^verbatim>\<open>ENOENT\<close>, the call is
  \<^verbatim>\<open>_migrate\<close> run on the set as it was, after the \<^verbatim>\<open>load\<close> event: the cursor in memory
  is the one before the call, whatever the stored record holds, the queue is computed from
  it, and (where the target resolves and the units succeed) the queue is run, the cursor
  moves by its length and the callback receives the outcome of the save, not the load
  error.
\<close>

theorem C9_enoent_keeps_cursor:
  assumes "load_find e = Some x" and "code x = Some ''ENOENT''"
  shows "migrateFn e d migrationName w = migrate_internal e d migrationName (emit Load w) \<and>
         self (emit Load w) = self w \<and> doc (emit Load w) = doc w \<and>
         trace (emit Load w) = trace w @ [Emit Load] \<and>
         (migrationPos (self w) d migrationName = Some t \<and> \<not> force (self w) \<and>
          (\<forall>m\<in>set (sub_sequence (self w) d t). operation m d = None) \<longrightarrow>
            invoked d (since w (migrateFn e d migrationName w)) = sub_sequence (self w) d t \<and>
            pos (self (migrateFn e d migrationName w)) =
              (if d = Up then pos (self w) + int (length (sub_sequence (self w) d t))
               else pos (self w) - int (length (sub_sequence (self w) d t))) \<and>
            callbacks (since w (migrateFn e d migrationName w)) =
              [if save_find e = None then save_write e else save_find e])"
proof -
  let ?l = "emit Load w"
  have run: "migrateFn e d migrationName w = migrate_internal e d migrationName ?l"
    by (rule migrateFn_enoent [OF assms])
  have l: "self ?l = self w \<and> doc ?l = doc w \<and> trace ?l = trace w @ [Emit Load]"
    by (simp add: emit_def)
  have go: "invoked d (since w (migrateFn e d migrationName w)) = sub_sequence (self w) d t \<and>
            pos (self (migrateFn e d migrationName w)) =
              (if d = Up then pos (self w) + int (length (sub_sequence (self w) d t))
               else pos (self w) - int (length (sub_sequence (self w) d t))) \<and>
            callbacks (since w (migrateFn e d migrationName w)) =
              [if save_find e = None then save_write e else save_find e]"
    if h: "migrationPos (self w) d migrationName = Some t \<and> \<not> force (self w) \<and>
          (\<forall>m\<in>set (sub_sequence (self w) d t). operation m d = None)"
  proof -
    let ?q = "sub_sequence (self w) d t"
    let ?s1 = "(self w)\<lparr>pos := (if d = Up then pos (self w) + int (length ?q)
                                    else pos (self w) - int (length ?q))\<rparr>"
    from h l have a: "\<not> force (self ?l)" "migrationPos (self ?l) d migrationName = Some t"
      "\<forall>m\<in>set (sub_sequence (self ?l) d t). operation m d = None"
      by simp_all
    have fin: "migrateFn e d migrationName w =
       save e callback (emit Complete
         (w\<lparr>self := ?s1,
            trace := trace w @ Emit Load #
              concat (map (\<lambda>m. [Emit (Migration m d), Invoke m d]) ?q)\<rparr>))"
      unfolding run migrate_internal_completed [OF a] by (simp add: emit_def)
    have s: "since w (migrateFn e d migrationName w) =
       (Emit Load # concat (map (\<lambda>m. [Emit (Migration m d), Invoke m d]) ?q)) @
       Emit Complete # save_actions e ?s1"
      unfolding fin
      using since_finished [of "w\<lparr>self := ?s1\<rparr>" e
          "Emit Load # concat (map (\<lambda>m. [Emit (Migration m d), Invoke m d]) ?q)"]
      by simp
    have i: "invoked d (since w (migrateFn e d migrationName w)) = ?q"
      unfolding s by (simp add: invoked_append invoked_steps invoked_save_actions)
    have p: "pos (self (migrateFn e d migrationName w)) = pos ?s1"
      unfolding fin by (simp add: self_finished)
    have c: "callbacks (since w (migrateFn e d migrationName w)) =
              [if save_find e = None then save_write e else save_find e]"
      unfolding s
      by (auto simp: callbacks_append callbacks_steps save_actions_def split: option.splits)
    from i p c show ?thesis by simp
  qed
  from run l go show ?thesis by blast
qed

theorem C9_enoent_keeps_cursor_witness:
  "load_find (db_ok\<lparr>load_find := Some enoent\<rparr>) = Some enoent \<and>
   code enoent = Some ''ENOENT'' \<and>
   doc ((world_abc 2 False)\<lparr>doc := Some (Some zero_record)\<rparr>) = Some (Some zero_record) \<and>
   migrationPos (self ((world_abc 2 False)\<lparr>doc := Some (Some zero_record)\<rparr>)) Up None = Some 3 \<and>
   sub_sequence (self ((world_abc 2 False)\<lparr>doc := Some (Some zero_record)\<rparr>)) Up 3 = [unit_c] \<and>
   operation unit_c Up = None \<and>
   invoked Up (since ((world_abc 2 False)\<lparr>doc := Some (Some zero_record)\<rparr>)
     (migrateFn (db_ok\<lparr>load_find := Some enoent\<rparr>) Up None
        ((world_abc 2 False)\<lparr>doc := Some (Some zero_record)\<rparr>))) = [unit_c] \<and>
   pos (self (migrateFn (db_ok\<lparr>load_find := Some enoent\<rparr>) Up None
        ((world_abc 2 False)\<lparr>doc := Some (Some zero_record)\<rparr>))) = 3 \<and>
   callbacks (since ((world_abc 2 False)\<lparr>doc := Some (Some zero_record)\<rparr>)
     (migrateFn (db_ok\<lparr>load_find := Some enoent\<rparr>) Up None
        ((world_abc 2 False)\<lparr>doc := Some (Some zero_record)\<rparr>))) = [None]"
proof -
  let ?e = "db_ok\<lparr>load_find := Some enoent\<rparr>"
  let ?w = "(world_abc 2 False)\<lparr>doc := Some (Some zero_record)\<rparr>"
  have l: "load_find ?e = Some enoent" "code enoent = Some ''ENOENT''" by simp_all
  have d: "doc ?w = Some (Some zero_record)" by simp
  have b: "migrationPos (self ?w) Up None = Some 3" by code_simp
  have q: "sub_sequence (self ?w) Up 3 = [unit_c]" by code_simp
  have o: "operation unit_c Up = None" by (simp add: operation_def)
  have h: "migrationPos (self ?w) Up None = Some 3 \<and> \<not> force (self ?w) \<and>
          (\<forall>m\<in>set (sub_sequence (self ?w) Up 3). operation m Up = None)"
    using b unfolding q by (simp add: operation_def)
  note r = C9_enoent_keeps_cursor [OF l, of Up None ?w 3, THEN conjunct2, THEN conjunct2,
      THEN conjunct2, THEN conjunct2, rule_format, OF h, unfolded q]
  have i: "invoked Up (since ?w (migrateFn ?e Up None ?w)) = [unit_c] \<and>
     pos (self (migrateFn ?e Up None ?w)) = 3 \<and>
     callbacks (since ?w (migrateFn ?e Up None ?w)) = [None]"
    using r by simp
  show ?thesis using l d b q o i by blast
qed

text \<open>
  Claim C10. When the computed queue is empty (for \<^verbatim>\<open>up\<close>, the cursor is at or past the
  position after the target; for \<^verbatim>\<open>down\<close>, at or below the target), the call invokes no
  operation and emits no \<^verbatim>\<open>migration\<close> event, leaves the set and its cursor unchanged,
  emits \<^verbatim>\<open>complete\<close> and goes through \<^verbatim>\<open>save\<close>: with a database that answers, the
  unchanged record is written, \<^verbatim>\<open>save\<close> is emitted and the callback is called without
  an error.
\<close>

theorem C10_empty_range:
  assumes "migrationPos (self w) d migrationName = Some t"
    and "sub_sequence (self w) d t = [] \<or>
         (0 \<le> pos (self w) \<and> d = Up \<and> t + 1 \<le> pos (self w)) \<or>
         (0 \<le> pos (self w) \<and> d = Down \<and> pos (self w) \<le> t)"
  shows "sub_sequence (self w) d t = [] \<and>
         migrate_internal e d migrationName w = save e callback (emit Complete w) \<and>
         since w (migrate_internal e d migrationName w) =
           Emit Complete # save_actions e (self w) \<and>
         invoked Up (since w (migrate_internal e d migrationName w)) = [] \<and>
         invoked Down (since w (migrate_internal e d migrationName w)) = [] \<and>
         notified Up (since w (migrate_internal e d migrationName w)) = [] \<and>
         notified Down (since w (migrate_internal e d migrationName w)) = [] \<and>
         self (migrate_internal e d migrationName w) = self w \<and>
         exited (migrate_internal e d migrationName w) = exited w \<and>
         (save_find e = None \<and> save_write e = None \<longrightarrow>
            since w (migrate_internal e d migrationName w) =
              [Emit Complete, Write (snapshot (self w)), Emit Save, Callback None] \<and>
            doc (migrate_internal e d migrationName w) = Some (Some (snapshot (self w))))"
proof -
  from migrationPos_nonneg [OF assms(1)] have t0: "0 \<le> t" by simp
  have empty: "sub_sequence (self w) d t = []"
    using assms(2)
  proof (elim disjE conjE)
    assume "0 \<le> pos (self w)" "d = Up" "t + 1 \<le> pos (self w)"
    then show ?thesis using slice_up [of "pos (self w)" t "migrations (self w)"] t0
      by (simp add: sub_sequence_def)
  next
    assume "0 \<le> pos (self w)" "d = Down" "pos (self w) \<le> t"
    then show ?thesis using slice_down [of "pos (self w)" t "migrations (self w)"] t0
      by (simp add: sub_sequence_def)
  qed
  have run: "migrate_internal e d migrationName w = save e callback (emit Complete w)"
    unfolding migrate_internal_resolved [OF assms(1)] empty by (simp add: run_queue_Nil)
  have s: "since w (migrate_internal e d migrationName w) = Emit Complete # save_actions e (self w)"
    unfolding run using since_finished [of w e "[]"] by simp
  have obs: "invoked Up (since w (migrate_internal e d migrationName w)) = [] \<and>
         invoked Down (since w (migrate_internal e d migrationName w)) = [] \<and>
         notified Up (since w (migrate_internal e d migrationName w)) = [] \<and>
         notified Down (since w (migrate_internal e d migrationName w)) = []"
    unfolding s by (simp add: invoked_save_actions notified_save_actions)
  have st: "self (migrate_internal e d migrationName w) = self w \<and>
         exited (migrate_internal e d migrationName w) = exited w"
    unfolding run by (simp add: save_eq emit_def)
  have saved: "since w (migrate_internal e d migrationName w) =
              [Emit Complete, Write (snapshot (self w)), Emit Save, Callback None] \<and>
            doc (migrate_internal e d migrationName w) = Some (Some (snapshot (self w)))"
    if "save_find e = None \<and> save_write e = None"
    unfolding s unfolding run using that by (simp add: save_actions_def save_eq emit_def)
  from empty run s obs st saved show ?thesis by blast
qed

theorem C10_empty_range_witness:
  "migrationPos (self (world_abc 3 False)) Up None = Some 3 \<and>
   sub_sequence (self (world_abc 3 False)) Up 3 = [] \<and>
   save_find db_ok = None \<and> save_write db_ok = None \<and>
   since (world_abc 3 False) (migrate_internal db_ok Up None (world_abc 3 False)) =
     [Emit Complete, Write \<lparr>rec_pos = 3, rec_migrations = [''001_a'', ''002_b'', ''003_c'']\<rparr>,
      Emit Save, Callback None] \<and>
   pos (self (migrate_internal db_ok Up None (world_abc 3 False))) = 3 \<and>
   migrationPos (self (world_abc 2 False)) Up (Some ''001_a'') = Some 0 \<and>
   0 \<le> pos (self (world_abc 2 False)) \<and> (0::int) + 1 \<le> pos (self (world_abc 2 False)) \<and>
   since (world_abc 2 False) (migrate_internal db_ok Up (Some ''001_a'') (world_abc 2 False)) =
     [Emit Complete, Write \<lparr>rec_pos = 2, rec_migrations = [''001_a'', ''002_b'', ''003_c'']\<rparr>,
      Emit Save, Callback None] \<and>
   pos (self (migrate_internal db_ok Up (Some ''001_a'') (world_abc 2 False))) = 2 \<and>
   migrationPos (self (world_abc 1 False)) Down (Some ''003_c'') = Some 2 \<and>
   0 \<le> pos (self (world_abc 1 False)) \<and> pos (self (world_abc 1 False)) \<le> 2 \<and>
   since (world_abc 1 False) (migrate_internal db_ok Down (Some ''003_c'') (world_abc 1 False)) =
     [Emit Complete, Write \<lparr>rec_pos = 1, rec_migrations = [''001_a'', ''002_b'', ''003_c'']\<rparr>,
      Emit Save, Callback None] \<and>
   pos (self (migrate_internal db_ok Down (Some ''003_c'') (world_abc 1 False))) = 1"
proof -
  have b1: "migrationPos (self (world_abc 3 False)) Up None = Some 3" by code_simp
  have q1: "sub_sequence (self (world_abc 3 False)) Up 3 = []" by code_simp
  have b2: "migrationPos (self (world_abc 2 False)) Up (Some ''001_a'') = Some 0" by code_simp
  have p2: "0 \<le> pos (self (world_abc 2 False))" "(0::int) + 1 \<le> pos (self (world_abc 2 False))"
    by simp_all
  have b3: "migrationPos (self (world_abc 1 False)) Down (Some ''003_c'') = Some 2" by code_simp
  have p3: "0 \<le> pos (self (world_abc 1 False))" "pos (self (world_abc 1 False)) \<le> 2"
    by simp_all
  have db: "save_find db_ok = None" "save_write db_ok = None" by simp_all
  have h1: "sub_sequence (self (world_abc 3 False)) Up 3 = [] \<or>
         (0 \<le> pos (self (world_abc 3 False)) \<and> Up = Up \<and> 3 + 1 \<le> pos (self (world_abc 3 False))) \<or>
         (0 \<le> pos (self (world_abc 3 False)) \<and> Up = Down \<and> pos (self (world_abc 3 False)) \<le> 3)"
    using q1 by blast
  have h2: "sub_sequence (self (world_abc 2 False)) Up 0 = [] \<or>
         (0 \<le> pos (self (world_abc 2 False)) \<and> Up = Up \<and> 0 + 1 \<le> pos (self (world_abc 2 False))) \<or>
         (0 \<le> pos (self (world_abc 2 False)) \<and> Up = Down \<and> pos (self (world_abc 2 False)) \<le> 0)"
    using p2 by blast
  have h3: "sub_sequence (self (world_abc 1 False)) Down 2 = [] \<or>
         (0 \<le> pos (self (world_abc 1 False)) \<and> Down = Up \<and> 2 + 1 \<le> pos (self (world_abc 1 False))) \<or>
         (0 \<le> pos (self (world_abc 1 False)) \<and> Down = Down \<and> pos (self (world_abc 1 False)) \<le> 2)"
    using p3 by blast
  have i1: "since (world_abc 3 False) (migrate_internal db_ok Up None (world_abc 3 False)) =
     [Emit Complete, Write \<lparr>rec_pos = 3, rec_migrations = [''001_a'', ''002_b'', ''003_c'']\<rparr>,
      Emit Save, Callback None] \<and>
   pos (self (migrate_internal db_ok Up None (world_abc 3 False))) = 3"
    using C10_empty_range [OF b1 h1, of db_ok, THEN conjunct2, THEN conjunct2]
    by (simp add: snapshot_def save_actions_def)
  have i2: "since (world_abc 2 False) (migrate_internal db_ok Up (Some ''001_a'') (world_abc 2 False)) =
     [Emit Complete, Write \<lparr>rec_pos = 2, rec_migrations = [''001_a'', ''002_b'', ''003_c'']\<rparr>,
      Emit Save, Callback None] \<and>
   pos (self (migrate_internal db_ok Up (Some ''001_a'') (world_abc 2 False))) = 2"
    using C10_empty_range [OF b2 h2, of db_ok, THEN conjunct2, THEN conjunct2]
    by (simp add: snapshot_def save_actions_def)
  have i3: "since (world_abc 1 False) (migrate_internal db_ok Down (Some ''003_c'') (world_abc 1 False)) =
     [Emit Complete, Write \<lparr>rec_pos = 1, rec_migrations = [''001_a'', ''002_b'', ''003_c'']\<rparr>,
      Emit Save, Callback None] \<and>
   pos (self (migrate_internal db_ok Down (Some ''003_c'') (world_abc 1 False))) = 1"
    using C10_empty_range [OF b3 h3, of db_ok, THEN conjunct2, THEN conjunct2]
    by (simp add: snapshot_def save_actions_def)
  show ?thesis using b1 q1 db i1 b2 p2 i2 b3 p3 i3 by blast
qed

end
